theory Spec2Isabelle
  imports Complex_Main "HOL-Library.Sublist"
begin

section \<open>The real-time processor of \<^verbatim>\<open>realtime_token_processor.py\<close>\<close>

text \<open>
  Python strings are modelled as Isabelle strings: a character outside ASCII stands as
  the bytes of its UTF-8 encoding, which keeps equality and substring tests as Python
  has them. Durations and timestamps (Python floats) are exact rationals. Printing,
  sleeping and the files written for debugging change nothing a later step reads, and
  are left out.
\<close>

subsection \<open>State\<close>

datatype perf_mode = Fast | Normal

text \<open>The captured request template: the dictionary built at the end of
  \<^verbatim>\<open>_capture_direct_search_template\<close>.\<close>

record template =
  t_url :: string
  t_method :: string
  t_headers :: "(string \<times> string) list"
  t_body_template :: "string option"

text \<open>
  The attributes that \<^verbatim>\<open>BatchTokenExtractor.__init__\<close> sets. That class is not
  among the source files, so their starting values are a parameter of the constructor.
\<close>

record batch_token_extractor =
  direct_search_template :: "template option"
  direct_search_failures :: nat
  direct_search_disabled_until :: rat
  direct_search_blocklist :: "string set"
  direct_search_timeout :: rat

record processor = batch_token_extractor +
  search_success_count :: nat
  search_fail_count :: nat
  performance_mode :: perf_mode
  success_streak :: nat
  last_search_used_fallback :: bool
  fast_mode_trigger :: nat
  max_speed_samples :: nat
  speed_stats :: "string \<rightharpoonup> rat list"
  use_direct_interface :: bool

text \<open>\<^verbatim>\<open>RealTimeProcessor.__init__\<close>, after the call of the parent's constructor.\<close>

definition RealTimeProcessor_init :: "batch_token_extractor \<Rightarrow> processor" where
  "RealTimeProcessor_init base =
     batch_token_extractor.extend base
       (processor.fields 0 0 Fast 0 False 3 20
          [''search'' \<mapsto> [], ''token'' \<mapsto> [], ''fetch'' \<mapsto> []]
          False)"

subsection \<open>Stage timings and the operating mode\<close>

definition record_stage_time :: "string \<Rightarrow> rat \<Rightarrow> processor \<Rightarrow> processor" where
  "record_stage_time stage duration s =
     (case speed_stats s stage of
        None \<Rightarrow> s
      | Some stats \<Rightarrow>
          (let appended = stats @ [duration];
               kept = (if length appended > max_speed_samples s then tl appended else appended)
           in s\<lparr>speed_stats := (speed_stats s)(stage \<mapsto> kept)\<rparr>))"

definition get_average_stage_time :: "string \<Rightarrow> processor \<Rightarrow> rat option" where
  "get_average_stage_time stage s =
     (case speed_stats s stage of
        None \<Rightarrow> None
      | Some stats \<Rightarrow>
          (if stats = [] then None else Some (sum_list stats / of_nat (length stats))))"

text \<open>\<^verbatim>\<open>avg_search and avg_search > 12\<close>: a missing or zero average is falsy.\<close>

definition search_is_slow :: "processor \<Rightarrow> bool" where
  "search_is_slow s =
     (case get_average_stage_time ''search'' s of
        None \<Rightarrow> False
      | Some avg \<Rightarrow> avg \<noteq> 0 \<and> avg > 12)"

definition update_performance_profile :: "bool \<Rightarrow> bool \<Rightarrow> processor \<Rightarrow> processor" where
  "update_performance_profile success used_fallback s =
     (if \<not> success then s\<lparr>performance_mode := Normal, success_streak := 0\<rparr>
      else if used_fallback then s\<lparr>performance_mode := Normal, success_streak := 0\<rparr>
      else
        (let s1 = s\<lparr>success_streak := success_streak s + 1\<rparr> in
         if performance_mode s1 = Normal \<and> success_streak s1 \<ge> fast_mode_trigger s1
         then s1\<lparr>performance_mode := Fast, success_streak := 0\<rparr>
         else if performance_mode s1 = Fast
         then (if search_is_slow s1
               then s1\<lparr>performance_mode := Normal, success_streak := 0\<rparr>
               else s1)
         else s1))"

subsection \<open>Percent-decoding and the decoding variants\<close>

text \<open>
  \<^verbatim>\<open>urllib.parse.unquote\<close> works on the runs of ASCII characters of its argument: in a
  run every escape \<^verbatim>\<open>%XX\<close> becomes the byte \<^verbatim>\<open>XX\<close> (\<^verbatim>\<open>unquote_to_bytes\<close>), and
  the bytes of the run are then decoded as UTF-8 with \<^verbatim>\<open>errors='replace'\<close>. The
  characters outside ASCII stay as they are.
\<close>

definition hexval :: "char \<Rightarrow> nat option" where
  "hexval c =
     (let n = of_char c :: nat in
      if 48 \<le> n \<and> n \<le> 57 then Some (n - 48)
      else if 65 \<le> n \<and> n \<le> 70 then Some (n - 55)
      else if 97 \<le> n \<and> n \<le> 102 then Some (n - 87)
      else None)"

definition hex_pair :: "char \<Rightarrow> char \<Rightarrow> char option" where
  "hex_pair h1 h2 =
     (case hexval h1 of
        None \<Rightarrow> None
      | Some a \<Rightarrow> (case hexval h2 of None \<Rightarrow> None | Some b \<Rightarrow> Some (char_of (16 * a + b))))"

fun unquote_to_bytes :: "string \<Rightarrow> string" where
  "unquote_to_bytes (c # h1 # h2 # rest) =
     (case (if c = CHR ''%'' then hex_pair h1 h2 else None) of
        Some byte \<Rightarrow> byte # unquote_to_bytes rest
      | None \<Rightarrow> c # unquote_to_bytes (h1 # h2 # rest))"
| "unquote_to_bytes cs = cs"

definition is_ascii :: "char \<Rightarrow> bool" where
  "is_ascii b = ((of_char b :: nat) < 0x80)"

definition is_cont :: "char \<Rightarrow> bool" where
  \<comment> \<open>a continuation byte of UTF-8\<close>
  "is_cont b = (0x80 \<le> (of_char b :: nat) \<and> (of_char b :: nat) \<le> 0xBF)"

text \<open>
  One step of CPython's UTF-8 decoder at the head of a byte string that is not empty:
  whether a well-formed sequence stands there, and how many bytes it takes. For a
  malformed head the number is the length of the part that the error handler replaces
  by one U+FFFD: one byte for an invalid start byte, the bytes before the first invalid
  continuation byte, or all that is left of a sequence cut off by the end of the data.
\<close>

definition utf8_step :: "string \<Rightarrow> bool \<times> nat" where
  "utf8_step s =
     (case s of
        [] \<Rightarrow> (False, 0)
      | b # bs \<Rightarrow>
          (let c = (of_char b :: nat) in
           if c < 0x80 then (True, 1)
           else if c < 0xC2 then (False, 1)
           else if c < 0xE0 then
             (case bs of
                [] \<Rightarrow> (False, 1)
              | b2 # r2 \<Rightarrow> if is_cont b2 then (True, 2) else (False, 1))
           else if c < 0xF0 then
             (case bs of
                [] \<Rightarrow> (False, 1)
              | b2 # r2 \<Rightarrow>
                  if \<not> is_cont b2 \<or> (if (of_char b2 :: nat) < 0xA0 then c = 0xE0 else c = 0xED)
                  then (False, 1)
                  else (case r2 of
                          [] \<Rightarrow> (False, 2)
                        | b3 # r3 \<Rightarrow> if is_cont b3 then (True, 3) else (False, 2)))
           else if c < 0xF5 then
             (case bs of
                [] \<Rightarrow> (False, 1)
              | b2 # r2 \<Rightarrow>
                  if \<not> is_cont b2 \<or> (if (of_char b2 :: nat) < 0x90 then c = 0xF0 else c = 0xF4)
                  then (False, 1)
                  else (case r2 of
                          [] \<Rightarrow> (False, 2)
                        | b3 # r3 \<Rightarrow>
                            if \<not> is_cont b3 then (False, 2)
                            else (case r3 of
                                    [] \<Rightarrow> (False, 3)
                                  | b4 # r4 \<Rightarrow> if is_cont b4 then (True, 4) else (False, 3))))
           else (False, 1)))"

lemma utf8_step_pos: "utf8_step (b # bs) = (ok, n) \<Longrightarrow> 0 < n"
  by (auto simp: utf8_step_def Let_def split: if_splits list.splits)

definition replacement_char :: string where
  \<comment> \<open>U+FFFD in UTF-8\<close>
  "replacement_char = [CHR 0xEF, CHR 0xBF, CHR 0xBD]"

text \<open>\<^verbatim>\<open>bytes.decode('utf-8', 'replace')\<close>, the result again in UTF-8.\<close>

function utf8_replace :: "string \<Rightarrow> string" where
  "utf8_replace [] = []"
| "utf8_replace (b # bs) =
     (case utf8_step (b # bs) of
        (ok, n) \<Rightarrow>
          (if ok then take n (b # bs) else replacement_char) @ utf8_replace (drop n (b # bs)))"
  by pat_completeness auto
termination
  by (relation "measure length") (auto dest: utf8_step_pos [OF sym])

function unquote :: "string \<Rightarrow> string" where
  "unquote [] = []"
| "unquote (c # cs) =
     (if is_ascii c
      then utf8_replace (unquote_to_bytes (takeWhile is_ascii (c # cs)))
           @ unquote (dropWhile is_ascii (c # cs))
      else takeWhile (\<lambda>b. \<not> is_ascii b) (c # cs)
           @ unquote (dropWhile (\<lambda>b. \<not> is_ascii b) (c # cs)))"
  by pat_completeness auto
termination
proof (relation "measure length")
  show "wf (measure length)" by simp
next
  fix c :: char and cs :: string
  assume "is_ascii c"
  then have "dropWhile is_ascii (c # cs) = dropWhile is_ascii cs" by simp
  moreover have "length (dropWhile is_ascii cs) \<le> length cs" by (rule length_dropWhile_le)
  ultimately show "(dropWhile is_ascii (c # cs), c # cs) \<in> measure length" by simp
next
  fix c :: char and cs :: string
  assume "\<not> is_ascii c"
  then have "dropWhile (\<lambda>b. \<not> is_ascii b) (c # cs) = dropWhile (\<lambda>b. \<not> is_ascii b) cs" by simp
  moreover have "length (dropWhile (\<lambda>b. \<not> is_ascii b) cs) \<le> length cs"
    by (rule length_dropWhile_le)
  ultimately show "(dropWhile (\<lambda>b. \<not> is_ascii b) (c # cs), c # cs) \<in> measure length" by simp
qed

definition unquote_plus :: "string \<Rightarrow> string" where
  "unquote_plus s = unquote (map (\<lambda>c. if c = CHR ''+'' then CHR '' '' else c) s)"

lemma unquote_examples:
  "unquote ''%41%2Bb'' = ''A+b''"
  "unquote ''%E4%B8%AD'' = [CHR 0xE4, CHR 0xB8, CHR 0xAD]"
  "unquote ''%FF'' = replacement_char"
  "unquote ''%D6%D0'' = replacement_char @ replacement_char"
  "unquote ''%F0%9F%41'' = replacement_char @ ''A''"
  "unquote_plus ''a+b%2Bc'' = ''a b+c''"
  by code_simp+

text \<open>
  The weight of a string, by which the loop below terminates: a continuation byte of
  UTF-8 weighs nothing, a plus sign three, every other byte two. Decoding an escape
  turns three bytes of weight six into one byte, or into one replacement character (of
  weight two); \<^verbatim>\<open>unquote_plus\<close> moreover turns plus signs into spaces.
\<close>

definition byte_weight :: "char \<Rightarrow> nat" where
  "byte_weight b = (if is_cont b then 0 else if b = CHR ''+'' then 3 else 2)"

definition weight :: "string \<Rightarrow> nat" where
  "weight s = sum_list (map byte_weight s)"

definition raw_weight :: "string \<Rightarrow> nat" where
  \<comment> \<open>the weight of bytes that are not decoded yet: a byte outside ASCII counts two\<close>
  "raw_weight s = sum_list (map (\<lambda>b. if is_ascii b then byte_weight b else 2) s)"

lemma weight_simps [simp]:
  "weight [] = 0"
  "weight (c # cs) = byte_weight c + weight cs"
  "weight (xs @ ys) = weight xs + weight ys"
  by (simp_all add: weight_def)

lemma raw_weight_simps [simp]:
  "raw_weight [] = 0"
  "raw_weight (c # cs) = (if is_ascii c then byte_weight c else 2) + raw_weight cs"
  "raw_weight (xs @ ys) = raw_weight xs + raw_weight ys"
  by (simp_all add: raw_weight_def)

lemma byte_weight_le_3: "byte_weight b \<le> 3"
  by (simp add: byte_weight_def)

lemma byte_weight_ascii: "is_ascii b \<Longrightarrow> 2 \<le> byte_weight b"
  by (simp add: byte_weight_def is_ascii_def is_cont_def)

lemma weight_le_raw: "weight s \<le> raw_weight s"
proof (induction s)
  case (Cons b s)
  have "byte_weight b \<le> (if is_ascii b then byte_weight b else 2)"
    by (simp add: byte_weight_def is_ascii_def is_cont_def)
  with Cons show ?case by simp
qed simp

lemma raw_weight_ge_2: "s \<noteq> [] \<Longrightarrow> 2 \<le> raw_weight s"
proof (cases s)
  case (Cons b bs)
  have "2 \<le> (if is_ascii b then byte_weight b else 2)"
    by (simp add: byte_weight_ascii)
  with Cons show ?thesis by simp
qed simp

lemma raw_weight_ascii: "\<forall>b\<in>set s. is_ascii b \<Longrightarrow> raw_weight s = weight s"
  by (induction s) simp_all

lemma weight_replacement_char: "weight replacement_char = 2"
  by (simp add: replacement_char_def byte_weight_def is_cont_def)

lemma weight_utf8_replace: "weight (utf8_replace d) \<le> raw_weight d"
proof (induction d rule: utf8_replace.induct)
  case 1
  show ?case by simp
next
  case (2 b bs)
  obtain ok n where st: "utf8_step (b # bs) = (ok, n)" by (cases "utf8_step (b # bs)")
  then have n: "0 < n" by (rule utf8_step_pos)
  have ih: "weight (utf8_replace (drop n (b # bs))) \<le> raw_weight (drop n (b # bs))"
    using "2.IH" [OF st [symmetric]] by simp
  have "take n (b # bs) \<noteq> []" using n by (cases n) simp_all
  then have two: "2 \<le> raw_weight (take n (b # bs))" by (rule raw_weight_ge_2)
  have hd: "weight (if ok then take n (b # bs) else replacement_char)
            \<le> raw_weight (take n (b # bs))"
    using two weight_le_raw [of "take n (b # bs)"] by (simp add: weight_replacement_char)
  have "raw_weight (b # bs) = raw_weight (take n (b # bs)) + raw_weight (drop n (b # bs))"
    using raw_weight_simps(3) [of "take n (b # bs)" "drop n (b # bs)"] by simp
  moreover have "weight (utf8_replace (b # bs))
      = weight (if ok then take n (b # bs) else replacement_char)
        + weight (utf8_replace (drop n (b # bs)))"
    using st by simp
  ultimately show ?case using ih hd by linarith
qed

lemma utf8_replace_ascii: "\<forall>b\<in>set d. is_ascii b \<Longrightarrow> utf8_replace d = d"
proof (induction d)
  case (Cons b bs)
  then have "utf8_step (b # bs) = (True, 1)" by (simp add: utf8_step_def is_ascii_def)
  with Cons show ?case by simp
qed simp

lemma hexval_ascii: "hexval h = Some a \<Longrightarrow> is_ascii h \<and> h \<noteq> CHR ''+''"
  by (auto simp: hexval_def Let_def is_ascii_def split: if_splits)

lemma hex_pair_weight:
  assumes "hex_pair h1 h2 = Some byte"
  shows "byte_weight h1 = 2" and "byte_weight h2 = 2"
proof -
  from assms obtain a b where "hexval h1 = Some a" and "hexval h2 = Some b"
    by (auto simp: hex_pair_def split: option.splits)
  then have "is_ascii h1 \<and> h1 \<noteq> CHR ''+''" and "is_ascii h2 \<and> h2 \<noteq> CHR ''+''"
    by (auto dest: hexval_ascii)
  then show "byte_weight h1 = 2" and "byte_weight h2 = 2"
    by (auto simp: byte_weight_def is_ascii_def is_cont_def)
qed

lemma raw_weight_unquote_to_bytes:
  "\<forall>b\<in>set r. is_ascii b \<Longrightarrow>
   raw_weight (unquote_to_bytes r) \<le> weight r
   \<and> (unquote_to_bytes r \<noteq> r \<longrightarrow> raw_weight (unquote_to_bytes r) < weight r)"
proof (induction r rule: unquote_to_bytes.induct)
  case (1 c h1 h2 rest)
  show ?case
  proof (cases "if c = CHR ''%'' then hex_pair h1 h2 else None")
    case None
    then show ?thesis using "1.IH"(1) "1.prems" by simp
  next
    case (Some byte)
    then have c: "c = CHR ''%''" and hp: "hex_pair h1 h2 = Some byte"
      by (auto split: if_splits)
    have ih: "raw_weight (unquote_to_bytes rest) \<le> weight rest"
      using "1.IH"(2) [OF Some] "1.prems" by simp
    have "(if is_ascii byte then byte_weight byte else 2) \<le> 3"
      by (simp add: byte_weight_le_3)
    moreover have "byte_weight c = 2" using c by (simp add: byte_weight_def is_cont_def)
    moreover have "byte_weight h1 = 2" and "byte_weight h2 = 2"
      using hex_pair_weight [OF hp] by simp_all
    ultimately show ?thesis using Some ih by simp
  qed
qed (simp_all add: raw_weight_ascii)

lemma weight_run:
  assumes "\<forall>b\<in>set r. is_ascii b"
  shows "weight (utf8_replace (unquote_to_bytes r)) \<le> weight r"
    and "utf8_replace (unquote_to_bytes r) \<noteq> r
         \<Longrightarrow> weight (utf8_replace (unquote_to_bytes r)) < weight r"
proof -
  have a: "weight (utf8_replace (unquote_to_bytes r)) \<le> raw_weight (unquote_to_bytes r)"
    by (rule weight_utf8_replace)
  have b: "raw_weight (unquote_to_bytes r) \<le> weight r"
    and c: "unquote_to_bytes r \<noteq> r \<longrightarrow> raw_weight (unquote_to_bytes r) < weight r"
    using raw_weight_unquote_to_bytes [OF assms] by simp_all
  show "weight (utf8_replace (unquote_to_bytes r)) \<le> weight r" using a b by simp
  assume neq: "utf8_replace (unquote_to_bytes r) \<noteq> r"
  have "unquote_to_bytes r \<noteq> r"
  proof
    assume "unquote_to_bytes r = r"
    then have "utf8_replace (unquote_to_bytes r) = r"
      using utf8_replace_ascii [OF assms] by simp
    with neq show False by simp
  qed
  with a c show "weight (utf8_replace (unquote_to_bytes r)) < weight r" by simp
qed

lemma weight_split: "weight s = weight (takeWhile P s) + weight (dropWhile P s)"
  using weight_simps(3) [of "takeWhile P s" "dropWhile P s"] by simp

lemma takeWhile_all: "\<forall>b\<in>set (takeWhile P s). P b"
  by (auto dest: set_takeWhileD)

lemma weight_unquote_le: "weight (unquote s) \<le> weight s"
proof (induction s rule: unquote.induct)
  case 1
  show ?case by simp
next
  case (2 c cs)
  show ?case
  proof (cases "is_ascii c")
    case True
    let ?r = "takeWhile is_ascii (c # cs)" and ?t = "dropWhile is_ascii (c # cs)"
    have "weight (utf8_replace (unquote_to_bytes ?r)) \<le> weight ?r"
      by (rule weight_run(1)) (rule takeWhile_all)
    moreover have "weight (unquote ?t) \<le> weight ?t" using "2.IH"(1) [OF True] .
    moreover have "unquote (c # cs) = utf8_replace (unquote_to_bytes ?r) @ unquote ?t"
      using True by (simp del: takeWhile.simps dropWhile.simps)
    ultimately show ?thesis using weight_split [of "c # cs" is_ascii] by simp
  next
    case False
    let ?r = "takeWhile (\<lambda>b. \<not> is_ascii b) (c # cs)"
    let ?t = "dropWhile (\<lambda>b. \<not> is_ascii b) (c # cs)"
    have "weight (unquote ?t) \<le> weight ?t" using "2.IH"(2) [OF False] .
    moreover have "unquote (c # cs) = ?r @ unquote ?t"
      using False by (simp del: takeWhile.simps dropWhile.simps)
    ultimately show ?thesis using weight_split [of "c # cs" "\<lambda>b. \<not> is_ascii b"] by simp
  qed
qed

lemma weight_unquote_less: "unquote s \<noteq> s \<Longrightarrow> weight (unquote s) < weight s"
proof (induction s rule: unquote.induct)
  case 1
  then show ?case by simp
next
  case (2 c cs)
  show ?case
  proof (cases "is_ascii c")
    case True
    let ?r = "takeWhile is_ascii (c # cs)" and ?t = "dropWhile is_ascii (c # cs)"
    let ?o = "utf8_replace (unquote_to_bytes ?r)"
    have all: "\<forall>b\<in>set ?r. is_ascii b" by (rule takeWhile_all)
    have eq: "unquote (c # cs) = ?o @ unquote ?t"
      using True by (simp del: takeWhile.simps dropWhile.simps)
    have le_o: "weight ?o \<le> weight ?r" using weight_run(1) [OF all] .
    have le_t: "weight (unquote ?t) \<le> weight ?t" by (rule weight_unquote_le)
    have sp: "weight (c # cs) = weight ?r + weight ?t" by (rule weight_split)
    have "?o \<noteq> ?r \<or> unquote ?t \<noteq> ?t"
    proof (rule ccontr)
      assume "\<not> (?o \<noteq> ?r \<or> unquote ?t \<noteq> ?t)"
      then have "unquote (c # cs) = ?r @ ?t" using eq by simp
      then have "unquote (c # cs) = c # cs" by (simp only: takeWhile_dropWhile_id)
      with "2.prems" show False by simp
    qed
    then show ?thesis
    proof
      assume "?o \<noteq> ?r"
      then have "weight ?o < weight ?r" using weight_run(2) [OF all] by simp
      then show ?thesis using eq le_t sp by simp
    next
      assume "unquote ?t \<noteq> ?t"
      then have "weight (unquote ?t) < weight ?t" using "2.IH"(1) [OF True] by simp
      then show ?thesis using eq le_o sp by simp
    qed
  next
    case False
    let ?r = "takeWhile (\<lambda>b. \<not> is_ascii b) (c # cs)"
    let ?t = "dropWhile (\<lambda>b. \<not> is_ascii b) (c # cs)"
    have eq: "unquote (c # cs) = ?r @ unquote ?t"
      using False by (simp del: takeWhile.simps dropWhile.simps)
    have sp: "weight (c # cs) = weight ?r + weight ?t" by (rule weight_split)
    have "unquote ?t \<noteq> ?t"
    proof
      assume "unquote ?t = ?t"
      then have "unquote (c # cs) = ?r @ ?t" using eq by simp
      then have "unquote (c # cs) = c # cs" by (simp only: takeWhile_dropWhile_id)
      with "2.prems" show False by simp
    qed
    then have "weight (unquote ?t) < weight ?t" using "2.IH"(2) [OF False] by simp
    then show ?thesis using eq sp by simp
  qed
qed

lemma weight_plus_map:
  "weight (map (\<lambda>c. if c = CHR ''+'' then CHR '' '' else c) s) \<le> weight s"
  by (induction s) (auto simp: byte_weight_def is_cont_def)

lemma weight_plus_map_less:
  "map (\<lambda>c. if c = CHR ''+'' then CHR '' '' else c) s \<noteq> s \<Longrightarrow>
   weight (map (\<lambda>c. if c = CHR ''+'' then CHR '' '' else c) s) < weight s"
proof (induction s)
  case (Cons a s)
  have le: "weight (map (\<lambda>c. if c = CHR ''+'' then CHR '' '' else c) s) \<le> weight s"
    by (rule weight_plus_map)
  show ?case
  proof (cases "a = CHR ''+''")
    case True
    then show ?thesis using le by (simp add: byte_weight_def is_cont_def)
  next
    case False
    with Cons show ?thesis by simp
  qed
qed simp

lemma weight_unquote_plus_less: "unquote_plus s \<noteq> s \<Longrightarrow> weight (unquote_plus s) < weight s"
proof -
  let ?m = "map (\<lambda>c. if c = CHR ''+'' then CHR '' '' else c) s"
  assume neq: "unquote_plus s \<noteq> s"
  show ?thesis
  proof (cases "?m = s")
    case True
    with neq have "unquote ?m \<noteq> ?m" by (simp add: unquote_plus_def)
    then have "weight (unquote ?m) < weight ?m" by (rule weight_unquote_less)
    with True show ?thesis by (simp add: unquote_plus_def)
  next
    case False
    then have "weight ?m < weight s" by (rule weight_plus_map_less)
    moreover have "weight (unquote ?m) \<le> weight ?m" by (rule weight_unquote_le)
    ultimately show ?thesis by (simp add: unquote_plus_def)
  qed
qed

definition queue_weight :: "string list \<Rightarrow> nat" where
  "queue_weight q = sum_list (map (\<lambda>s. 3 ^ weight s) q)"

lemma queue_weight_simps [simp]:
  "queue_weight [] = 0"
  "queue_weight (s # q) = 3 ^ weight s + queue_weight q"
  "queue_weight (q @ r) = queue_weight q + queue_weight r"
  by (simp_all add: queue_weight_def)

lemma pow3_less: "a < b \<Longrightarrow> c < b \<Longrightarrow> (3::nat) ^ a + 3 ^ c < 3 ^ b"
proof -
  assume a: "a < b" and c: "c < b"
  obtain k where k: "b = Suc k" using a by (cases b) auto
  have "(3::nat) ^ a \<le> 3 ^ k" using a k by (intro power_increasing) auto
  moreover have "(3::nat) ^ c \<le> 3 ^ k" using c k by (intro power_increasing) auto
  moreover have "(0::nat) < 3 ^ k" by simp
  ultimately have "(3::nat) ^ a + 3 ^ c < 3 * 3 ^ k" by linarith
  then show ?thesis using k by simp
qed

text \<open>
  The loop of \<^verbatim>\<open>_iter_decoded_variants\<close> over its queue, with the set of strings
  seen and the list of variants found so far. It terminates because the strings put on
  the queue weigh less than the string taken off: with \<open>3 ^ weight s\<close> for every
  string \<open>s\<close> of the queue, the sum over the queue goes down in every turn.
\<close>

function iter_loop :: "string list \<Rightarrow> string set \<Rightarrow> string list \<Rightarrow> string list" where
  "iter_loop [] seen variants = variants"
| "iter_loop (current # queue) seen variants =
     (if current \<in> seen then iter_loop queue seen variants
      else
        (let seen1 = insert current seen;
             variants1 = variants @ [current];
             decoded = unquote current;
             queue1 = (if decoded \<notin> seen1 \<and> decoded \<noteq> current
                       then queue @ [decoded] else queue);
             decoded_plus = unquote_plus current;
             queue2 = (if decoded_plus \<notin> seen1 \<and> decoded_plus \<noteq> current
                       then queue1 @ [decoded_plus] else queue1)
         in iter_loop queue2 seen1 variants1))"
  by pat_completeness auto
termination
proof (relation "measure (\<lambda>(q, seen, vs). queue_weight q)")
  show "wf (measure (\<lambda>(q, seen, vs). queue_weight q))" by simp
next
  fix current :: string and queue seen variants
  show "((queue, seen, variants), (current # queue, seen, variants))
        \<in> measure (\<lambda>(q, seen, vs). queue_weight q)"
    by simp
next
  fix current :: string and queue :: "string list" and seen :: "string set"
    and variants :: "string list" and x xa xb xc xd xe
  assume "current \<notin> seen" and "x = insert current seen" and "xa = variants @ [current]"
    and "xb = unquote current"
    and xc: "xc = (if xb \<notin> x \<and> xb \<noteq> current then queue @ [xb] else queue)"
    and xd: "xd = unquote_plus current"
    and xe: "xe = (if xd \<notin> x \<and> xd \<noteq> current then xc @ [xd] else xc)"
    and xb: "xb = unquote current"
  have a: "xb \<noteq> current \<Longrightarrow> weight xb < weight current"
    using weight_unquote_less [of current] xb by simp
  have b: "xd \<noteq> current \<Longrightarrow> weight xd < weight current"
    using weight_unquote_plus_less [of current] xd by simp
  have "queue_weight xe < queue_weight (current # queue)"
    using a b pow3_less [of "weight xb" "weight current" "weight xd"]
    by (auto simp: xc xe)
  then show "((xe, x, xa), (current # queue, seen, variants))
        \<in> measure (\<lambda>(q, seen, vs). queue_weight q)"
    by simp
qed

definition iter_decoded_variants :: "string \<Rightarrow> string list" where
  "iter_decoded_variants v = (if v = [] then [] else iter_loop [v] {} [])"

lemma iter_loop_distinct:
  "distinct vs \<Longrightarrow> set vs = seen \<Longrightarrow> distinct (iter_loop q seen vs)"
proof (induction q seen vs rule: iter_loop.induct)
  case (1 seen variants)
  then show ?case by simp
next
  case (2 current queue seen variants)
  show ?case
  proof (cases "current \<in> seen")
    case True
    with 2 show ?thesis by simp
  next
    case False
    have d: "distinct (variants @ [current])" using 2 False by auto
    have s: "set (variants @ [current]) = insert current seen" using 2 by auto
    show ?thesis
      using False "2.IH"(2) [OF False refl refl refl refl refl refl d s]
      by (simp add: Let_def)
  qed
qed

subsection \<open>JSON values and \<^verbatim>\<open>json.loads\<close>\<close>


datatype json =
    JNull
  | JBool bool
  | JNum rat
  | JNonFinite string
  | JStr string
  | JArr "json list"
  | JObj "(string \<times> json) list"

fun startswith :: "string \<Rightarrow> string \<Rightarrow> bool" where
  "startswith s [] = True"
| "startswith [] (p # ps) = False"
| "startswith (c # cs) (p # ps) = (c = p \<and> startswith cs ps)"

fun dict_set :: "(string \<times> 'v) list \<Rightarrow> string \<Rightarrow> 'v \<Rightarrow> (string \<times> 'v) list" where
  "dict_set [] k v = [(k, v)]"
| "dict_set ((k', v') # ps) k v = (if k' = k then (k, v) # ps else (k', v') # dict_set ps k v)"

definition is_digit :: "char \<Rightarrow> bool" where
  "is_digit c = (48 \<le> (of_char c :: nat) \<and> (of_char c :: nat) \<le> 57)"

definition digit_val :: "char \<Rightarrow> nat" where
  "digit_val c = of_char c - 48"

definition digits_val :: "string \<Rightarrow> nat" where
  "digits_val ds = foldl (\<lambda>acc d. 10 * acc + digit_val d) 0 ds"

definition json_ws :: "char \<Rightarrow> bool" where
  "json_ws c = (c = CHR '' '' \<or> c = CHR 0x09 \<or> c = CHR 0x0A \<or> c = CHR 0x0D)"

definition skip_ws :: "string \<Rightarrow> string" where
  "skip_ws = dropWhile json_ws"

definition utf8_encode :: "nat \<Rightarrow> string" where
  "utf8_encode n =
     (if n < 0x80 then [char_of n]
      else if n < 0x800 then [char_of (0xC0 + n div 64), char_of (0x80 + n mod 64)]
      else if n < 0x10000 then
        [char_of (0xE0 + n div 4096), char_of (0x80 + (n div 64) mod 64), char_of (0x80 + n mod 64)]
      else
        [char_of (0xF0 + n div 262144), char_of (0x80 + (n div 4096) mod 64),
         char_of (0x80 + (n div 64) mod 64), char_of (0x80 + n mod 64)])"

definition hex4 :: "string \<Rightarrow> nat option" where
  "hex4 cs =
     (case map hexval (take 4 cs) of
        [Some a, Some b, Some c, Some d] \<Rightarrow> Some (4096 * a + 256 * b + 16 * c + d)
      | _ \<Rightarrow> None)"

text \<open>After \<open>\u\<close>: the code point and the number of characters read (4, or 10 for a
  surrogate pair).\<close>

definition decode_u :: "string \<Rightarrow> (nat \<times> nat) option" where
  "decode_u cs =
     (case hex4 cs of
        None \<Rightarrow> None
      | Some uni \<Rightarrow>
          (if 0xD800 \<le> uni \<and> uni \<le> 0xDBFF \<and> take 2 (drop 4 cs) = [CHR 0x5C, CHR ''u'']
           then (case hex4 (drop 6 cs) of
                   None \<Rightarrow> None
                 | Some uni2 \<Rightarrow>
                     (if 0xDC00 \<le> uni2 \<and> uni2 \<le> 0xDFFF
                      then Some (0x10000 + ((uni - 0xD800) * 1024 + (uni2 - 0xDC00)), 10)
                      else Some (uni, 4)))
           else Some (uni, 4)))"

definition simple_escape :: "char \<Rightarrow> char option" where
  "simple_escape e =
     (if e = CHR 0x22 then Some (CHR 0x22)
      else if e = CHR 0x5C then Some (CHR 0x5C)
      else if e = CHR ''/'' then Some (CHR ''/'')
      else if e = CHR ''b'' then Some (CHR 0x08)
      else if e = CHR ''f'' then Some (CHR 0x0C)
      else if e = CHR ''n'' then Some (CHR 0x0A)
      else if e = CHR ''r'' then Some (CHR 0x0D)
      else if e = CHR ''t'' then Some (CHR 0x09)
      else None)"

fun scanstring :: "string \<Rightarrow> (string \<times> string) option" where
  "scanstring [] = None"
| "scanstring (c # cs) =
     (if c = CHR 0x22 then Some ([], cs)
      else if c = CHR 0x5C then
        (case cs of
           [] \<Rightarrow> None
         | e # es \<Rightarrow>
             (if e = CHR ''u'' then
                (case decode_u es of
                   None \<Rightarrow> None
                 | Some (uni, n) \<Rightarrow>
                     (case scanstring (drop n es) of
                        None \<Rightarrow> None
                      | Some (s, r) \<Rightarrow> Some (utf8_encode uni @ s, r)))
              else
                (case simple_escape e of
                   None \<Rightarrow> None
                 | Some ch \<Rightarrow>
                     (case scanstring es of
                        None \<Rightarrow> None
                      | Some (s, r) \<Rightarrow> Some (ch # s, r)))))
      else if (of_char c :: nat) < 32 then None
      else (case scanstring cs of None \<Rightarrow> None | Some (s, r) \<Rightarrow> Some (c # s, r)))"

definition take_sign :: "string \<Rightarrow> bool \<times> string" where
  "take_sign cs =
     (case cs of
        [] \<Rightarrow> (False, cs)
      | s # r \<Rightarrow> if s = CHR ''-'' then (True, r) else (False, cs))"

definition int_part :: "string \<Rightarrow> (string \<times> string) option" where
  "int_part cs =
     (case cs of
        [] \<Rightarrow> None
      | d # ds \<Rightarrow>
          (if \<not> is_digit d then None
           else if d = CHR ''0'' then Some ([d], ds)
           else Some (takeWhile is_digit cs, dropWhile is_digit cs)))"

definition frac_part :: "string \<Rightarrow> string \<times> string" where
  "frac_part cs =
     (case cs of
        p # f # fs \<Rightarrow>
          if p = CHR ''.'' \<and> is_digit f
          then (takeWhile is_digit (f # fs), dropWhile is_digit (f # fs))
          else ([], cs)
      | _ \<Rightarrow> ([], cs))"

definition exp_sign :: "string \<Rightarrow> bool \<times> string" where
  "exp_sign r =
     (case r of
        [] \<Rightarrow> (False, r)
      | s # r' \<Rightarrow> if s = CHR ''-'' then (True, r')
                  else if s = CHR ''+'' then (False, r') else (False, r))"

definition exp_part :: "string \<Rightarrow> int \<times> string" where
  "exp_part cs =
     (case cs of
        [] \<Rightarrow> (0, cs)
      | e # r \<Rightarrow>
          (if e = CHR ''e'' \<or> e = CHR ''E'' then
             (let (neg, r1) = exp_sign r;
                  ds = takeWhile is_digit r1
              in if ds = [] then (0, cs)
                 else ((if neg then - int (digits_val ds) else int (digits_val ds)),
                       dropWhile is_digit r1))
           else (0, cs)))"

definition parse_number :: "string \<Rightarrow> (json \<times> string) option" where
  "parse_number cs =
     (let (neg, cs1) = take_sign cs in
      case int_part cs1 of
        None \<Rightarrow> None
      | Some (ip, r1) \<Rightarrow>
          (let (fp, r2) = frac_part r1;
               (ex, r3) = exp_part r2;
               mant = of_nat (digits_val (ip @ fp)) / (10 ^ length fp) :: rat;
               val = (if ex \<ge> 0 then mant * 10 ^ nat ex else mant / 10 ^ nat (- ex))
           in Some (JNum (if neg then - val else val), r3)))"

definition parse_literal :: "string \<Rightarrow> (json \<times> string) option" where
  "parse_literal cs =
     (if startswith cs ''null'' then Some (JNull, drop 4 cs)
      else if startswith cs ''true'' then Some (JBool True, drop 4 cs)
      else if startswith cs ''false'' then Some (JBool False, drop 5 cs)
      else if startswith cs ''NaN'' then Some (JNonFinite ''NaN'', drop 3 cs)
      else if startswith cs ''Infinity'' then Some (JNonFinite ''Infinity'', drop 8 cs)
      else if startswith cs ''-Infinity'' then Some (JNonFinite ''-Infinity'', drop 9 cs)
      else None)"

fun parse_value :: "nat \<Rightarrow> string \<Rightarrow> (json \<times> string) option"
  and parse_items :: "nat \<Rightarrow> string \<Rightarrow> json list \<Rightarrow> (json list \<times> string) option"
  and parse_members :: "nat \<Rightarrow> string \<Rightarrow> (string \<times> json) list
        \<Rightarrow> ((string \<times> json) list \<times> string) option" where
  "parse_value 0 cs = None"
| "parse_value (Suc n) [] = None"
| "parse_value (Suc n) (c # r) =
     (if c = CHR 0x22 then
        (case scanstring r of None \<Rightarrow> None | Some (s, r') \<Rightarrow> Some (JStr s, r'))
      else if c = CHR ''{'' then
        (case skip_ws r of
           [] \<Rightarrow> None
         | d # r2 \<Rightarrow> if d = CHR ''}'' then Some (JObj [], r2)
                     else (case parse_members n (d # r2) [] of
                             None \<Rightarrow> None
                           | Some (ps, r3) \<Rightarrow> Some (JObj ps, r3)))
      else if c = CHR ''['' then
        (case skip_ws r of
           [] \<Rightarrow> None
         | d # r2 \<Rightarrow> if d = CHR '']'' then Some (JArr [], r2)
                     else (case parse_items n (d # r2) [] of
                             None \<Rightarrow> None
                           | Some (xs, r3) \<Rightarrow> Some (JArr xs, r3)))
      else (case parse_literal (c # r) of
              Some res \<Rightarrow> Some res
            | None \<Rightarrow> parse_number (c # r)))"
| "parse_items 0 cs acc = None"
| "parse_items (Suc n) cs acc =
     (case parse_value n cs of
        None \<Rightarrow> None
      | Some (v, r1) \<Rightarrow>
          (case skip_ws r1 of
             [] \<Rightarrow> None
           | d # r2 \<Rightarrow> if d = CHR '']'' then Some (acc @ [v], r2)
                       else if d = CHR '','' then parse_items n (skip_ws r2) (acc @ [v])
                       else None))"
| "parse_members 0 cs acc = None"
| "parse_members (Suc n) cs acc =
     (case cs of
        [] \<Rightarrow> None
      | q # r \<Rightarrow>
          (if q \<noteq> CHR 0x22 then None
           else (case scanstring r of
                   None \<Rightarrow> None
                 | Some (key, r1) \<Rightarrow>
                     (case skip_ws r1 of
                        [] \<Rightarrow> None
                      | colon # r2 \<Rightarrow>
                          (if colon \<noteq> CHR '':'' then None
                           else (case parse_value n (skip_ws r2) of
                                   None \<Rightarrow> None
                                 | Some (v, r3) \<Rightarrow>
                                     (case skip_ws r3 of
                                        [] \<Rightarrow> None
                                      | d # r4 \<Rightarrow>
                                          if d = CHR ''}'' then Some (dict_set acc key v, r4)
                                          else if d = CHR '','' then
                                            parse_members n (skip_ws r4) (dict_set acc key v)
                                          else None)))))))"

definition json_loads :: "string \<Rightarrow> json option" where
  "json_loads s =
     (if startswith s [CHR 0xEF, CHR 0xBB, CHR 0xBF] then None
      else (case parse_value (Suc (length s)) (skip_ws s) of
              None \<Rightarrow> None
            | Some (v, r) \<Rightarrow> if skip_ws r = [] then Some v else None))"


fun jsize :: "json \<Rightarrow> nat" where
  "jsize (JStr s) = Suc (length s)"
| "jsize (JArr xs) = Suc (sum_list (map jsize xs))"
| "jsize (JObj ps) = Suc (sum_list (map (\<lambda>p. jsize (snd p)) ps))"
| "jsize _ = 1"




lemma hex4_length: "hex4 cs = Some v \<Longrightarrow> 4 \<le> length cs"
proof -
  assume h: "hex4 cs = Some v"
  then obtain a b c d where "map hexval (take 4 cs) = [a, b, c, d]"
    unfolding hex4_def by (auto split: list.splits option.splits)
  then have "length (map hexval (take 4 cs)) = 4" by simp
  then have "min (length cs) 4 = 4" by simp
  then show ?thesis by linarith
qed

lemma decode_u_bounds: "decode_u cs = Some (u, n) \<Longrightarrow> 4 \<le> n \<and> n \<le> length cs"
proof -
  assume d: "decode_u cs = Some (u, n)"
  then obtain uni where u1: "hex4 cs = Some uni"
    unfolding decode_u_def by (auto split: option.splits)
  have l4: "4 \<le> length cs" using u1 by (rule hex4_length)
  show ?thesis
  proof (cases "n = 4")
    case True
    then show ?thesis using l4 by simp
  next
    case False
    with d u1 obtain uni2 where "hex4 (drop 6 cs) = Some uni2" and n: "n = 10"
      unfolding decode_u_def by (auto split: option.splits if_splits)
    then have "4 \<le> length (drop 6 cs)" using hex4_length by blast
    then show ?thesis using n by simp
  qed
qed

lemma utf8_encode_length: "length (utf8_encode n) \<le> 4"
  by (simp add: utf8_encode_def)

lemma scanstring_size: "scanstring cs = Some (s, r) \<Longrightarrow> length s + length r < length cs"
proof (induction cs arbitrary: s r rule: scanstring.induct)
  case 1
  then show ?case by simp
next
  case (2 c cs)
  show ?case
  proof (cases "c = CHR 0x22")
    case True
    with "2.prems" show ?thesis by simp
  next
    case nq: False
    show ?thesis
    proof (cases "c = CHR 0x5C")
      case bs: True
      from "2.prems" nq bs obtain e es where cs: "cs = e # es"
        by (cases cs) auto
      show ?thesis
      proof (cases "e = CHR ''u''")
        case eu: True
        from "2.prems" nq bs cs eu obtain uni n s' where
          du: "decode_u es = Some (uni, n)" and
          sc: "scanstring (drop n es) = Some (s', r)" and
          s: "s = utf8_encode uni @ s'"
          by (auto split: option.splits)
        have "length s' + length r < length (drop n es)"
          using "2.IH"(1) [OF nq bs cs eu du refl sc] .
        moreover have "4 \<le> n \<and> n \<le> length es" using du by (rule decode_u_bounds)
        moreover have "length (utf8_encode uni) \<le> 4" by (rule utf8_encode_length)
        ultimately have "length (utf8_encode uni) + length s' + length r < length es"
          by simp linarith
        then show ?thesis using s cs by simp
      next
        case neu: False
        from "2.prems" nq bs cs neu obtain ch s' where
          se: "simple_escape e = Some ch" and
          sc: "scanstring es = Some (s', r)" and s: "s = ch # s'"
          by (auto split: option.splits)
        have "length s' + length r < length es"
          using "2.IH"(2) [OF nq bs cs neu se sc] .
        then show ?thesis using s cs by simp
      qed
    next
      case nbs: False
      from "2.prems" nq nbs obtain s' where
        ctl: "\<not> (of_char c :: nat) < 32" and
        sc: "scanstring cs = Some (s', r)" and s: "s = c # s'"
        by (auto split: option.splits if_splits)
      have "length s' + length r < length cs"
        using "2.IH"(3) [OF nq nbs ctl sc] .
      then show ?thesis using s by simp
    qed
  qed
qed

lemma skip_ws_length: "length (skip_ws cs) \<le> length cs"
  by (simp add: skip_ws_def length_dropWhile_le)

lemma take_sign_size: "take_sign cs = (neg, r) \<Longrightarrow> length r \<le> length cs"
  by (auto simp: take_sign_def split: list.splits if_splits)

lemma int_part_size: "int_part cs = Some (ip, r) \<Longrightarrow> length r < length cs"
proof -
  assume h: "int_part cs = Some (ip, r)"
  then obtain d ds where cs: "cs = d # ds" and d: "is_digit d"
    unfolding int_part_def by (auto split: list.splits if_splits)
  have "length (dropWhile is_digit ds) \<le> length ds" by (rule length_dropWhile_le)
  then show ?thesis using h cs d unfolding int_part_def by (auto split: if_splits)
qed

lemma frac_part_size: "frac_part cs = (fp, r) \<Longrightarrow> length r \<le> length cs"
proof -
  assume h: "frac_part cs = (fp, r)"
  show ?thesis
  proof (cases cs)
    case Nil
    with h show ?thesis by (simp add: frac_part_def)
  next
    case c1: (Cons p t)
    show ?thesis
    proof (cases t)
      case Nil
      with h c1 show ?thesis by (simp add: frac_part_def)
    next
      case c2: (Cons f fs)
      have d: "length (dropWhile is_digit t) \<le> length t" by (rule length_dropWhile_le)
      show ?thesis
      proof (cases "p = CHR ''.'' \<and> is_digit f")
        case True
        with h c1 c2 have "r = dropWhile is_digit t" by (simp add: frac_part_def)
        with d c1 show ?thesis by simp
      next
        case False
        with h c1 c2 have "r = cs" by (auto simp add: frac_part_def)
        then show ?thesis by simp
      qed
    qed
  qed
qed

lemma exp_sign_size: "exp_sign r = (neg, r1) \<Longrightarrow> length r1 \<le> length r"
  by (cases r) (auto simp: exp_sign_def split: if_splits)

lemma exp_part_size: "exp_part cs = (ex, r) \<Longrightarrow> length r \<le> length cs"
proof -
  assume h: "exp_part cs = (ex, r)"
  show ?thesis
  proof (cases cs)
    case Nil
    with h show ?thesis by (simp add: exp_part_def)
  next
    case (Cons e t)
    obtain neg r1 where es: "exp_sign t = (neg, r1)" by (cases "exp_sign t")
    have l1: "length r1 \<le> length t" using es by (rule exp_sign_size)
    have d: "length (dropWhile is_digit r1) \<le> length r1" by (rule length_dropWhile_le)
    show ?thesis
    proof (cases "(e = CHR ''e'' \<or> e = CHR ''E'') \<and> takeWhile is_digit r1 \<noteq> []")
      case True
      with h Cons es have "r = dropWhile is_digit r1" by (auto simp: exp_part_def Let_def split: if_splits)
      with d l1 Cons show ?thesis by simp
    next
      case False
      with h Cons es have "r = cs" by (auto simp: exp_part_def Let_def split: if_splits)
      then show ?thesis by simp
    qed
  qed
qed

lemma parse_number_size:
  "parse_number cs = Some (v, r) \<Longrightarrow> jsize v + length r \<le> length cs"
proof -
  assume h: "parse_number cs = Some (v, r)"
  obtain neg cs1 where ts: "take_sign cs = (neg, cs1)" by (cases "take_sign cs")
  with h obtain ip r1 where ip: "int_part cs1 = Some (ip, r1)"
    unfolding parse_number_def by (auto split: option.splits)
  obtain fp r2 where fp: "frac_part r1 = (fp, r2)" by (cases "frac_part r1")
  obtain ex r3 where ex: "exp_part r2 = (ex, r3)" by (cases "exp_part r2")
  from h ts ip fp ex have v: "jsize v = 1" and r: "r = r3"
    unfolding parse_number_def by (auto simp: Let_def)
  from take_sign_size [OF ts] int_part_size [OF ip] frac_part_size [OF fp] exp_part_size [OF ex]
  show ?thesis using v r by simp
qed

lemma dict_set_size:
  "sum_list (map (\<lambda>p. jsize (snd p)) (dict_set ps k v))
   \<le> sum_list (map (\<lambda>p. jsize (snd p)) ps) + jsize v"
  by (induction ps) auto

lemma startswith_length: "startswith s p \<Longrightarrow> length p \<le> length s"
  by (induction s p rule: startswith.induct) auto





lemma parse_literal_size:
  "parse_literal cs = Some (v, r) \<Longrightarrow> jsize v + length r \<le> length cs"
  unfolding parse_literal_def
  using startswith_length [of cs "''null''"] startswith_length [of cs "''true''"]
    startswith_length [of cs "''false''"] startswith_length [of cs "''NaN''"]
    startswith_length [of cs "''Infinity''"] startswith_length [of cs "''-Infinity''"]
  by (auto split: if_splits)

lemma parse_sizes:
  "(parse_value n cs = Some (v, r) \<longrightarrow> jsize v + length r \<le> length cs)
   \<and> (parse_items n cs xacc = Some (xs, r) \<longrightarrow>
        sum_list (map jsize xs) + length r < sum_list (map jsize xacc) + length cs)
   \<and> (parse_members n cs pacc = Some (ps, r) \<longrightarrow>
        sum_list (map (\<lambda>p. jsize (snd p)) ps) + length r
        < sum_list (map (\<lambda>p. jsize (snd p)) pacc) + length cs)"
proof (induction n arbitrary: cs v r xacc xs pacc ps)
  case 0
  show ?case by simp
next
  case (Suc n)
  note IHv = Suc.IH [THEN conjunct1, rule_format]
  note IHi = Suc.IH [THEN conjunct2, THEN conjunct1, rule_format]
  note IHm = Suc.IH [THEN conjunct2, THEN conjunct2, rule_format]
  have A: "jsize v + length r \<le> length cs" if h: "parse_value (Suc n) cs = Some (v, r)"
  proof (cases cs)
    case Nil
    with h show ?thesis by simp
  next
    case (Cons c t)
    consider (str) "c = CHR 0x22" | (obj) "c \<noteq> CHR 0x22" "c = CHR ''{''"
      | (arr) "c \<noteq> CHR 0x22" "c \<noteq> CHR ''{''" "c = CHR ''[''"
      | (other) "c \<noteq> CHR 0x22" "c \<noteq> CHR ''{''" "c \<noteq> CHR ''[''" by blast
    then show ?thesis
    proof cases
      case str
      with h Cons obtain s where "scanstring t = Some (s, r)" and "v = JStr s"
        by (auto split: option.splits)
      then show ?thesis using scanstring_size [of t s r] Cons by simp
    next
      case obj
      from h Cons obj obtain d r2 where sk: "skip_ws t = d # r2"
        by (auto split: list.splits)
      have l: "length (d # r2) \<le> length t" using skip_ws_length [of t] sk by simp
      show ?thesis
      proof (cases "d = CHR ''}''")
        case True
        with h Cons obj sk l show ?thesis by auto
      next
        case False
        with h Cons obj sk obtain ps where pm: "parse_members n (d # r2) [] = Some (ps, r)"
          and v: "v = JObj ps" by (auto split: option.splits)
        from IHm [OF pm] l show ?thesis using v Cons by simp
      qed
    next
      case arr
      from h Cons arr obtain d r2 where sk: "skip_ws t = d # r2"
        by (auto split: list.splits)
      have l: "length (d # r2) \<le> length t" using skip_ws_length [of t] sk by simp
      show ?thesis
      proof (cases "d = CHR '']''")
        case True
        with h Cons arr sk l show ?thesis by auto
      next
        case False
        with h Cons arr sk obtain xs' where pm: "parse_items n (d # r2) [] = Some (xs', r)"
          and v: "v = JArr xs'" by (auto split: option.splits)
        from IHi [OF pm] l show ?thesis using v Cons by simp
      qed
    next
      case other
      show ?thesis
      proof (cases "parse_literal cs")
        case None
        with h Cons other have "parse_number cs = Some (v, r)" by simp
        then show ?thesis by (rule parse_number_size)
      next
        case (Some res)
        with h Cons other have "parse_literal cs = Some (v, r)" by simp
        then show ?thesis by (rule parse_literal_size)
      qed
    qed
  qed
  have B: "sum_list (map jsize xs) + length r < sum_list (map jsize xacc) + length cs"
    if h: "parse_items (Suc n) cs xacc = Some (xs, r)"
  proof -
    from h obtain v r1 where pv: "parse_value n cs = Some (v, r1)"
      by (auto split: option.splits)
    from h pv obtain d r2 where sk: "skip_ws r1 = d # r2"
      by (auto split: list.splits)
    have l: "Suc (length r2) \<le> length r1" using skip_ws_length [of r1] sk by simp
    note s1 = IHv [OF pv]
    show ?thesis
    proof (cases "d = CHR '']''")
      case True
      with h pv sk have "xs = xacc @ [v]" "r = r2" by auto
      then show ?thesis using s1 l by simp
    next
      case False
      with h pv sk have pi: "parse_items n (skip_ws r2) (xacc @ [v]) = Some (xs, r)"
        by (auto split: if_splits)
      from IHi [OF pi] skip_ws_length [of r2] s1 l show ?thesis by simp
    qed
  qed
  have C: "sum_list (map (\<lambda>p. jsize (snd p)) ps) + length r
        < sum_list (map (\<lambda>p. jsize (snd p)) pacc) + length cs"
    if h: "parse_members (Suc n) cs pacc = Some (ps, r)"
  proof -
    from h obtain t where cs: "cs = CHR 0x22 # t"
      by (auto split: list.splits if_splits)
    from h cs obtain key r1 where sc: "scanstring t = Some (key, r1)"
      by (auto split: option.splits)
    from h cs sc obtain r2 where sk: "skip_ws r1 = CHR '':'' # r2"
      by (auto split: list.splits if_splits)
    from h cs sc sk obtain v r3 where pv: "parse_value n (skip_ws r2) = Some (v, r3)"
      by (auto split: option.splits)
    from h cs sc sk pv obtain d r4 where sk3: "skip_ws r3 = d # r4"
      by (auto split: list.splits)
    have l1: "length r1 < length t" using scanstring_size [OF sc] by simp
    have l2: "Suc (length r2) \<le> length r1" using skip_ws_length [of r1] sk by simp
    have l3: "jsize v + length r3 \<le> length r2"
      using IHv [OF pv] skip_ws_length [of r2] by simp
    have l4: "Suc (length r4) \<le> length r3" using skip_ws_length [of r3] sk3 by simp
    note ds = dict_set_size [of pacc key v]
    show ?thesis
    proof (cases "d = CHR ''}''")
      case True
      with h cs sc sk pv sk3 have "ps = dict_set pacc key v" "r = r4" by auto
      then show ?thesis using ds l1 l2 l3 l4 cs by simp
    next
      case False
      with h cs sc sk pv sk3
      have pm: "parse_members n (skip_ws r4) (dict_set pacc key v) = Some (ps, r)"
        by (auto split: if_splits)
      from IHm [OF pm] skip_ws_length [of r4] ds l1 l2 l3 l4 cs show ?thesis by simp
    qed
  qed
  from A B C show ?case by blast
qed

lemma json_loads_size: "json_loads s = Some j \<Longrightarrow> jsize j \<le> length s"
proof -
  assume "json_loads s = Some j"
  then obtain r where "parse_value (Suc (length s)) (skip_ws s) = Some (j, r)"
    unfolding json_loads_def by (auto split: option.splits if_splits)
  then have "jsize j + length r \<le> length (skip_ws s)"
    using parse_sizes [of "Suc (length s)" "skip_ws s" j r] by simp
  then show ?thesis using skip_ws_length [of s] by simp
qed

subsection \<open>Python string operations\<close>

text \<open>\<^verbatim>\<open>sub in s\<close> on strings.\<close>

fun contains :: "string \<Rightarrow> string \<Rightarrow> bool" where
  "contains sub [] = (sub = [])"
| "contains sub (c # cs) = (startswith (c # cs) sub \<or> contains sub cs)"

text \<open>\<^verbatim>\<open>str.lower\<close>, on the ASCII letters.\<close>

definition lower_char :: "char \<Rightarrow> char" where
  "lower_char c =
     (if 65 \<le> (of_char c :: nat) \<and> (of_char c :: nat) \<le> 90
      then char_of ((of_char c :: nat) + 32) else c)"

definition lower :: "string \<Rightarrow> string" where
  "lower s = map lower_char s"

text \<open>
  The length in bytes of the white-space character at the head of a string, 0 when there
  is none: the characters for which \<^verbatim>\<open>str.isspace\<close> holds, which are also the
  ones \<^verbatim>\<open>\s\<close> matches in a pattern over \<^verbatim>\<open>str\<close>.
\<close>

definition ws_len :: "string \<Rightarrow> nat" where
  "ws_len s =
     (case s of
        [] \<Rightarrow> 0
      | c # r \<Rightarrow>
          (let n = (of_char c :: nat) in
           if (9 \<le> n \<and> n \<le> 13) \<or> (28 \<le> n \<and> n \<le> 32) then 1
           else if n = 0xC2 then
             (if take 1 r = [CHR 0x85] \<or> take 1 r = [CHR 0xA0] then 2 else 0)
           else if n = 0xE1 then (if take 2 r = [CHR 0x9A, CHR 0x80] then 3 else 0)
           else if n = 0xE2 then
             (case take 2 r of
                [a, b] \<Rightarrow>
                  (let m = (of_char b :: nat) in
                   if a = CHR 0x80 \<and> ((0x80 \<le> m \<and> m \<le> 0x8A) \<or> m = 0xA8 \<or> m = 0xA9 \<or> m = 0xAF)
                   then 3
                   else if a = CHR 0x81 \<and> m = 0x9F then 3 else 0)
              | _ \<Rightarrow> 0)
           else if n = 0xE3 then (if take 2 r = [CHR 0x80, CHR 0x80] then 3 else 0)
           else 0))"

lemma ws_len_drop: "0 < ws_len s \<Longrightarrow> length s - ws_len s < length s"
  by (cases s) (auto simp: ws_len_def)

function lstrip :: "string \<Rightarrow> string" where
  "lstrip s = (if 0 < ws_len s then lstrip (drop (ws_len s) s) else s)"
  by pat_completeness auto
termination
  by (relation "measure length") (auto intro: ws_len_drop)

declare lstrip.simps [simp del]

fun rstrip :: "string \<Rightarrow> string" where
  "rstrip [] = []"
| "rstrip (c # cs) = (if lstrip (c # cs) = [] then [] else c # rstrip cs)"

definition strip :: "string \<Rightarrow> string" where
  "strip s = rstrip (lstrip s)"

text \<open>\<^verbatim>\<open>re.split(r'[?&#\s]', s)\<close>: every delimiter character ends a piece.\<close>

definition delim_len :: "string \<Rightarrow> nat" where
  "delim_len s =
     (case s of
        [] \<Rightarrow> 0
      | c # r \<Rightarrow> if c = CHR ''?'' \<or> c = CHR ''&'' \<or> c = CHR ''#'' then 1 else ws_len s)"

lemma delim_len_drop: "0 < delim_len s \<Longrightarrow> length s - delim_len s < length s"
  using ws_len_drop [of s] by (cases s) (auto simp: delim_len_def)

function re_split_delims :: "string \<Rightarrow> string \<Rightarrow> string list" where
  "re_split_delims cur [] = [cur]"
| "re_split_delims cur (c # cs) =
     (if 0 < delim_len (c # cs)
      then cur # re_split_delims [] (drop (delim_len (c # cs)) (c # cs))
      else re_split_delims (cur @ [c]) cs)"
  by pat_completeness auto
termination
  by (relation "measure (\<lambda>(cur, s). length s)") (auto dest: delim_len_drop)

text \<open>\<^verbatim>\<open>s.split(sep)\<close> for a one-character separator.\<close>

fun split_on :: "char \<Rightarrow> string \<Rightarrow> string \<Rightarrow> string list" where
  "split_on sep cur [] = [cur]"
| "split_on sep cur (c # cs) =
     (if c = sep then cur # split_on sep [] cs else split_on sep (cur @ [c]) cs)"

text \<open>\<^verbatim>\<open>str.replace(old, new)\<close> for a non-empty \<^verbatim>\<open>old\<close>: the occurrences are
  found from the left and do not overlap.\<close>

function py_replace :: "string \<Rightarrow> string \<Rightarrow> string \<Rightarrow> string" where
  "py_replace old new [] = []"
| "py_replace old new (c # cs) =
     (if old \<noteq> [] \<and> startswith (c # cs) old
      then new @ py_replace old new (drop (length old) (c # cs))
      else c # py_replace old new cs)"
  by pat_completeness auto
termination
  by (relation "measure (\<lambda>(old, new, s). length s)") auto

subsection \<open>Token extraction from a response\<close>

type_synonym tokens = "(string \<times> json) list"

definition has_all_keys :: "(string \<times> 'v) list \<Rightarrow> bool" where
  "has_all_keys d =
     (map_of d ''pnk'' \<noteq> None \<and> map_of d ''folderFlag'' \<noteq> None \<and> map_of d ''oid'' \<noteq> None)"

text \<open>\<^verbatim>\<open>d.get(k, '')\<close> on a dictionary of JSON values.\<close>

definition get_or_empty :: "(string \<times> json) list \<Rightarrow> string \<Rightarrow> json" where
  "get_or_empty d k = (case map_of d k of None \<Rightarrow> JStr [] | Some v \<Rightarrow> v)"

lemma jsize_pos: "0 < jsize j"
  by (cases j) auto

lemma jsize_member: "x \<in> set xs \<Longrightarrow> jsize x \<le> sum_list (map jsize xs)"
  by (induction xs) auto

function extract_tokens_from_json :: "json \<Rightarrow> tokens option"
  and extract_first :: "json list \<Rightarrow> tokens option" where
  "extract_tokens_from_json (JObj ps) =
     (if has_all_keys ps
      then Some [(''pnk'', get_or_empty ps ''pnk''),
                 (''folderFlag'', get_or_empty ps ''folderFlag''),
                 (''oid'', get_or_empty ps ''oid'')]
      else extract_first (map snd ps))"
| "extract_tokens_from_json (JArr xs) = extract_first xs"
| "extract_tokens_from_json (JStr s) =
     (case json_loads s of
        None \<Rightarrow> None
      | Some nested \<Rightarrow> if nested \<noteq> JStr s then extract_tokens_from_json nested else None)"
| "extract_tokens_from_json JNull = None"
| "extract_tokens_from_json (JBool b) = None"
| "extract_tokens_from_json (JNum n) = None"
| "extract_tokens_from_json (JNonFinite n) = None"
| "extract_first [] = None"
| "extract_first (x # xs) =
     (case extract_tokens_from_json x of
        Some r \<Rightarrow> if r \<noteq> [] then Some r else extract_first xs
      | None \<Rightarrow> extract_first xs)"
  by pat_completeness auto
termination
  by (relation "measure (\<lambda>x. case x of Inl j \<Rightarrow> 2 * jsize j
                                 | Inr js \<Rightarrow> 2 * sum_list (map jsize js) + 1)")
     (auto simp: comp_def jsize_pos dest: json_loads_size)

text \<open>\<^verbatim>\<open>key, value = sub.split('=', 1)\<close>, for a \<^verbatim>\<open>sub\<close> that contains \<^verbatim>\<open>=\<close>.\<close>

definition split_first_eq :: "string \<Rightarrow> string \<times> string" where
  "split_first_eq sub =
     (takeWhile (\<lambda>c. c \<noteq> CHR ''='') sub, drop 1 (dropWhile (\<lambda>c. c \<noteq> CHR ''='') sub))"

definition token_key :: "string \<Rightarrow> bool" where
  "token_key k = (k = ''pnk'' \<or> k = ''folderFlag'' \<or> k = ''oid'')"

definition process_sub :: "(string \<times> string) list \<Rightarrow> string \<Rightarrow> (string \<times> string) list" where
  "process_sub pairs sub =
     (if CHR ''='' \<notin> set sub then pairs
      else (let (key0, val) = split_first_eq sub; key = strip key0
            in if token_key key \<and> val \<noteq> [] then dict_set pairs key val else pairs))"

definition process_part :: "(string \<times> string) list \<Rightarrow> string \<Rightarrow> (string \<times> string) list" where
  "process_part pairs part =
     (if contains ''pnk='' part \<or> contains ''folderflag='' part \<or> contains ''oid='' part
      then foldl process_sub pairs (split_on CHR ''&'' [] part)
      else pairs)"

definition process_variant :: "(string \<times> string) list \<Rightarrow> string \<Rightarrow> (string \<times> string) list" where
  "process_variant pairs variant = foldl process_part pairs (re_split_delims [] variant)"

text \<open>The loop over the variants, left as soon as all three keys are there.\<close>

fun scan_variants :: "(string \<times> string) list \<Rightarrow> string list \<Rightarrow> (string \<times> string) list" where
  "scan_variants pairs [] = pairs"
| "scan_variants pairs (v # vs) =
     (let pairs1 = process_variant pairs v
      in if has_all_keys pairs1 then pairs1 else scan_variants pairs1 vs)"

text \<open>The inner \<^verbatim>\<open>_decode\<close>: at most three rounds, left when a round changes nothing.\<close>

fun decode_rounds :: "nat \<Rightarrow> string \<Rightarrow> string" where
  "decode_rounds 0 decoded = decoded"
| "decode_rounds (Suc n) decoded =
     (let new_val = unquote decoded
      in if new_val = decoded then decoded else decode_rounds n new_val)"

definition pairs_get :: "(string \<times> string) list \<Rightarrow> string \<Rightarrow> string" where
  "pairs_get pairs k = (case map_of pairs k of None \<Rightarrow> [] | Some v \<Rightarrow> v)"

definition extract_tokens_from_query_string :: "string \<Rightarrow> tokens option" where
  "extract_tokens_from_query_string candidate =
     (if candidate = [] then None
      else if \<not> contains ''pnk'' (lower candidate) \<or> \<not> contains ''oid'' (lower candidate) then None
      else (let pairs = scan_variants [] (iter_decoded_variants candidate)
            in if \<not> has_all_keys pairs then None
               else Some [(''pnk'', JStr (decode_rounds 3 (pairs_get pairs ''pnk''))),
                          (''oid'', JStr (decode_rounds 3 (pairs_get pairs ''oid'')))]))"

text \<open>
  The pattern of the last resort,
  \<^verbatim>\<open>(?:"|')(pnk|folderFlag|oid)(?:"|')\s*[:=]\s*(?:"|')([^"']+)\<close>, matched at the head
  of a string: the key, the value and what follows the match.
\<close>

definition is_quote :: "char \<Rightarrow> bool" where
  "is_quote c = (c = CHR 0x22 \<or> c = CHR 0x27)"

definition match_quote :: "string \<Rightarrow> string option" where
  "match_quote s = (case s of [] \<Rightarrow> None | q # r \<Rightarrow> if is_quote q then Some r else None)"

definition match_key :: "string \<Rightarrow> (string \<times> string) option" where
  "match_key s =
     (if startswith s ''pnk'' then Some (''pnk'', drop 3 s)
      else if startswith s ''folderFlag'' then Some (''folderFlag'', drop 10 s)
      else if startswith s ''oid'' then Some (''oid'', drop 3 s)
      else None)"

definition match_sep :: "string \<Rightarrow> string option" where
  "match_sep s =
     (case lstrip s of
        [] \<Rightarrow> None
      | d # r \<Rightarrow> if d = CHR '':'' \<or> d = CHR ''='' then Some (lstrip r) else None)"

definition match_at :: "string \<Rightarrow> (string \<times> string \<times> string) option" where
  "match_at s =
     (case match_quote s of
        None \<Rightarrow> None
      | Some r1 \<Rightarrow>
          (case match_key r1 of
             None \<Rightarrow> None
           | Some (key, r2) \<Rightarrow>
               (case match_quote r2 of
                  None \<Rightarrow> None
                | Some r3 \<Rightarrow>
                    (case match_sep r3 of
                       None \<Rightarrow> None
                     | Some r4 \<Rightarrow>
                         (case match_quote r4 of
                            None \<Rightarrow> None
                          | Some r5 \<Rightarrow>
                              (let v = takeWhile (\<lambda>c. \<not> is_quote c) r5
                               in if v = [] then None
                                  else Some (key, v, dropWhile (\<lambda>c. \<not> is_quote c) r5)))))))"

text \<open>
  \<^verbatim>\<open>pattern.findall\<close>: the matches from the left, without overlap. After a match
  the characters it covers are skipped.
\<close>

fun findall :: "nat \<Rightarrow> string \<Rightarrow> (string \<times> string) list" where
  "findall skip [] = []"
| "findall skip (c # cs) =
     (if 0 < skip then findall (skip - 1) cs
      else (case match_at (c # cs) of
              Some (key, v, rest) \<Rightarrow> (key, v) # findall (length cs - length rest) cs
            | None \<Rightarrow> findall 0 cs))"

definition regex_token_map :: "string \<Rightarrow> (string \<times> string) list" where
  "regex_token_map candidate =
     foldl (\<lambda>d (k, v). dict_set d k v) [] (findall 0 candidate)"

text \<open>The first element of a list for which a step returns a non-empty dictionary.\<close>

fun first_tokens :: "('a \<Rightarrow> tokens option) \<Rightarrow> 'a list \<Rightarrow> tokens option" where
  "first_tokens f [] = None"
| "first_tokens f (x # xs) =
     (case f x of
        Some r \<Rightarrow> if r \<noteq> [] then Some r else first_tokens f xs
      | None \<Rightarrow> first_tokens f xs)"

definition looks_like_json :: "string \<Rightarrow> bool" where
  "looks_like_json candidate =
     (startswith (strip candidate) ''{'' \<or> startswith (strip candidate) ''['')"

text \<open>Step 1: a variant that is JSON, searched for an object with the three keys.\<close>

definition tokens_from_json_text :: "string \<Rightarrow> string \<Rightarrow> tokens option" where
  "tokens_from_json_text content_type candidate =
     (if contains ''json'' content_type \<or> looks_like_json candidate
      then (case json_loads candidate of
              None \<Rightarrow> None
            | Some json_payload \<Rightarrow> extract_tokens_from_json json_payload)
      else None)"

text \<open>Step 2: the string fields \<^verbatim>\<open>body\<close>, \<^verbatim>\<open>data\<close>, \<^verbatim>\<open>params\<close> and
  \<^verbatim>\<open>postData\<close> of a JSON object, read as query strings.\<close>

definition possible_fields :: "(string \<times> json) list \<Rightarrow> json list" where
  "possible_fields d =
     concat (map (\<lambda>key. case map_of d key of None \<Rightarrow> [] | Some v \<Rightarrow> [v])
               [''body'', ''data'', ''params'', ''postData''])"

definition tokens_from_field :: "json \<Rightarrow> tokens option" where
  "tokens_from_field field =
     (case field of
        JStr s \<Rightarrow> first_tokens extract_tokens_from_query_string (iter_decoded_variants s)
      | _ \<Rightarrow> None)"

definition tokens_from_json_fields :: "string \<Rightarrow> tokens option" where
  "tokens_from_json_fields candidate =
     (case json_loads candidate of
        Some (JObj d) \<Rightarrow> first_tokens tokens_from_field (possible_fields d)
      | _ \<Rightarrow> None)"

text \<open>Step 4: the pattern of the last resort, which wants all three keys.\<close>

definition tokens_from_regex :: "string \<Rightarrow> tokens option" where
  "tokens_from_regex candidate =
     (let token_map = regex_token_map candidate
      in if has_all_keys token_map then Some (map (\<lambda>(k, v). (k, JStr v)) token_map) else None)"

fun first_some :: "('a \<Rightarrow> 'b option) \<Rightarrow> 'a list \<Rightarrow> 'b option" where
  "first_some f [] = None"
| "first_some f (x # xs) = (case f x of Some r \<Rightarrow> Some r | None \<Rightarrow> first_some f xs)"

definition parse_search_response_for_tokens :: "string \<Rightarrow> string \<Rightarrow> tokens option" where
  "parse_search_response_for_tokens text content_type =
     (if text = [] then None
      else
        (let ct = lower content_type;
             candidates = iter_decoded_variants text
         in case first_tokens (tokens_from_json_text ct) candidates of
              Some r \<Rightarrow> Some r
            | None \<Rightarrow>
                (case first_tokens tokens_from_json_fields candidates of
                   Some r \<Rightarrow> Some r
                 | None \<Rightarrow>
                     (case first_tokens extract_tokens_from_query_string candidates of
                        Some r \<Rightarrow> Some r
                      | None \<Rightarrow> first_some tokens_from_regex (candidates @ [text])))))"

subsection \<open>The failure ledger of the fast path\<close>

text \<open>The reason strings of the source, as the bytes of their UTF-8 encoding.\<close>

definition reason_parse_failed :: string where
  \<comment> \<open>U+89E3 U+6790 U+5931 U+8D25: U+89E3 U+6790 U+5931 U+8D25, the reason of a parse exception\<close>
  "reason_parse_failed = [CHR 0xE8, CHR 0xA7, CHR 0xA3, CHR 0xE6, CHR 0x9E, CHR 0x90, CHR 0xE5, CHR 0xA4, CHR 0xB1, CHR 0xE8, CHR 0xB4, CHR 0xA5]"

definition reason_no_tokens :: string where
  \<comment> \<open>U+672A U+89E3 U+6790 U+5230 T o k e n: the reason when the response holds no tokens\<close>
  "reason_no_tokens = [CHR 0xE6, CHR 0x9C, CHR 0xAA, CHR 0xE8, CHR 0xA7, CHR 0xA3, CHR 0xE6, CHR 0x9E, CHR 0x90, CHR 0xE5, CHR 0x88, CHR 0xB0, CHR ''T'', CHR ''o'', CHR ''k'', CHR ''e'', CHR ''n'']"

definition reason_script_timeout :: string where
  \<comment> \<open>U+811A U+672C U+8D85 U+65F6: script timeout\<close>
  "reason_script_timeout = [CHR 0xE8, CHR 0x84, CHR 0x9A, CHR 0xE6, CHR 0x9C, CHR 0xAC, CHR 0xE8, CHR 0xB6, CHR 0x85, CHR 0xE6, CHR 0x97, CHR 0xB6]"

definition reason_exec_error :: string where
  \<comment> \<open>U+6267 U+884C U+5F02 U+5E38: exception while executing\<close>
  "reason_exec_error = [CHR 0xE6, CHR 0x89, CHR 0xA7, CHR 0xE8, CHR 0xA1, CHR 0x8C, CHR 0xE5, CHR 0xBC, CHR 0x82, CHR 0xE5, CHR 0xB8, CHR 0xB8]"

definition reason_no_response :: string where
  \<comment> \<open>U+65E0 U+54CD U+5E94: no response\<close>
  "reason_no_response = [CHR 0xE6, CHR 0x97, CHR 0xA0, CHR 0xE5, CHR 0x93, CHR 0x8D, CHR 0xE5, CHR 0xBA, CHR 0x94]"

definition reason_status_prefix :: string where
  \<comment> \<open>U+72B6 U+6001 U+7801: status code\<close>
  "reason_status_prefix = [CHR 0xE7, CHR 0x8A, CHR 0xB6, CHR 0xE6, CHR 0x80, CHR 0x81, CHR 0xE7, CHR 0xA0, CHR 0x81]"

definition reason_request_failed :: string where
  \<comment> \<open>U+8BF7 U+6C42 U+5931 U+8D25: request failed\<close>
  "reason_request_failed = [CHR 0xE8, CHR 0xAF, CHR 0xB7, CHR 0xE6, CHR 0xB1, CHR 0x82, CHR 0xE5, CHR 0xA4, CHR 0xB1, CHR 0xE8, CHR 0xB4, CHR 0xA5]"

definition reason_unknown :: string where
  \<comment> \<open>U+672A U+77E5 U+539F U+56E0: unknown reason\<close>
  "reason_unknown = [CHR 0xE6, CHR 0x9C, CHR 0xAA, CHR 0xE7, CHR 0x9F, CHR 0xA5, CHR 0xE5, CHR 0x8E, CHR 0x9F, CHR 0xE5, CHR 0x9B, CHR 0xA0]"

definition is_parse_reason :: "string \<Rightarrow> bool" where
  "is_parse_reason reason_text = (reason_text = reason_parse_failed \<or> reason_text = reason_no_tokens)"

text \<open>
  \<^verbatim>\<open>_register_direct_search_failure\<close>. \<open>now\<close> is what \<^verbatim>\<open>time.time()\<close> returns; an
  empty \<open>reason\<close> or \<open>patent_no\<close> stands for any falsy argument (\<^verbatim>\<open>None\<close> too).
\<close>

definition register_direct_search_failure ::
    "rat \<Rightarrow> string \<Rightarrow> string \<Rightarrow> processor \<Rightarrow> processor" where
  "register_direct_search_failure now reason patent_no s =
     (let s1 = s\<lparr>direct_search_failures := direct_search_failures s + 1\<rparr>;
          reason_text = (if reason = [] then reason_unknown else reason);
          s2 = (if direct_search_failures s1 \<ge> 2 \<and> is_parse_reason reason_text
                then s1\<lparr>direct_search_template := None\<rparr> else s1);
          s3 = (if patent_no \<noteq> [] \<and> is_parse_reason reason_text
                then (if patent_no \<notin> direct_search_blocklist s2
                      then s2\<lparr>direct_search_blocklist := insert patent_no (direct_search_blocklist s2)\<rparr>
                      else s2)
                else s2)
      in if direct_search_failures s3 \<ge> 3
         then s3\<lparr>direct_search_disabled_until := now + max 180 (direct_search_timeout s3 * 10)\<rparr>
         else s3)"

text \<open>
  What a request of the fast path returns: the dictionary of the browser script or of
  \<^verbatim>\<open>_execute_direct_search_via_requests\<close>. A missing key reads as falsy: an empty
  string, status 0.
\<close>

record response =
  r_ok :: bool
  r_error :: string
  r_status :: nat
  r_text :: string
  r_contentType :: string

text \<open>How \<^verbatim>\<open>_execute_direct_search\<close> ends: the browser and the network decide.\<close>

datatype exec_outcome =
    Exec_timeout
  | Exec_webdriver_error string
  | Exec_other_error
  | Exec_returned "response option"

function str_nat :: "nat \<Rightarrow> string" where
  "str_nat n = (if n < 10 then [char_of (48 + n)] else str_nat (n div 10) @ [char_of (48 + n mod 10)])"
  by pat_completeness auto
termination
  by (relation "measure id") auto

declare str_nat.simps [simp del]

definition response_reason :: "response \<Rightarrow> string \<Rightarrow> string" where
  \<comment> \<open>the reason read off a browser response; \<open>reason\<close> is kept when the response is fine\<close>
  "response_reason r reason =
     (if r_error r \<noteq> [] then r_error r
      else if \<not> r_ok r then
        (if r_status r \<noteq> 0 then reason_status_prefix @ str_nat (r_status r) else reason_request_failed)
      else reason)"

definition fallback_reason :: "response \<Rightarrow> string \<Rightarrow> string" where
  "fallback_reason r reason =
     (if r_error r \<noteq> [] then r_error r
      else if \<not> r_ok r then
        (if r_status r \<noteq> 0 then reason_status_prefix @ str_nat (r_status r) else reason)
      else reason)"

definition exec_reason :: "exec_outcome \<Rightarrow> string" where
  "exec_reason out =
     (case out of
        Exec_timeout \<Rightarrow> reason_script_timeout
      | Exec_webdriver_error message \<Rightarrow>
          if contains ''script timeout'' (lower message) then reason_script_timeout
          else reason_exec_error
      | Exec_other_error \<Rightarrow> reason_exec_error
      | Exec_returned None \<Rightarrow> reason_no_response
      | Exec_returned (Some r) \<Rightarrow> response_reason r [])"

definition exec_response :: "exec_outcome \<Rightarrow> response option" where
  "exec_response out = (case out of Exec_returned r \<Rightarrow> r | _ \<Rightarrow> None)"

text \<open>The last part of \<^verbatim>\<open>_direct_fetch_tokens\<close>: the response is parsed. Reading a
  response that is \<^verbatim>\<open>None\<close> raises, which the source records as a parse failure.\<close>

definition parse_stage :: "rat \<Rightarrow> string \<Rightarrow> response option \<Rightarrow> processor \<Rightarrow> tokens option \<times> processor" where
  "parse_stage now_fail patent_no resp s =
     (case resp of
        None \<Rightarrow> (None, register_direct_search_failure now_fail reason_parse_failed patent_no s)
      | Some r \<Rightarrow>
          (case parse_search_response_for_tokens (r_text r) (r_contentType r) of
             Some toks \<Rightarrow>
               if toks \<noteq> []
               then (Some toks, s\<lparr>last_search_used_fallback := False, direct_search_failures := 0,
                                   direct_search_disabled_until := 0\<rparr>)
               else (None, register_direct_search_failure now_fail reason_no_tokens patent_no s)
           | None \<Rightarrow> (None, register_direct_search_failure now_fail reason_no_tokens patent_no s)))"

text \<open>
  \<^verbatim>\<open>_direct_fetch_tokens\<close>. \<open>now\<close> is the clock at the cooldown test, \<open>now_fail\<close> the
  clock when a failure is recorded; \<open>out\<close> and \<open>fallback\<close> are what the two
  transports return.
\<close>

definition direct_fetch_tokens ::
    "exec_outcome \<Rightarrow> response option \<Rightarrow> rat \<Rightarrow> rat \<Rightarrow> string \<Rightarrow> processor
     \<Rightarrow> tokens option \<times> processor" where
  "direct_fetch_tokens out fallback now now_fail patent_no s =
     (if patent_no \<in> direct_search_blocklist s then (None, s)
      else if direct_search_template s = None then (None, s)
      else if direct_search_disabled_until s \<noteq> 0 \<and> now < direct_search_disabled_until s
      then (None, s)
      else
        (let s0 = (if direct_search_disabled_until s \<noteq> 0
                   then s\<lparr>direct_search_disabled_until := 0, direct_search_failures := 0\<rparr>
                   else s);
             reason = exec_reason out
         in if reason \<noteq> [] then
              (case fallback of
                 Some fb \<Rightarrow>
                   if r_ok fb then parse_stage now_fail patent_no (Some fb) s0
                   else (let reason1 = fallback_reason fb reason
                         in if reason1 \<noteq> []
                            then (None, register_direct_search_failure now_fail reason1 patent_no s0)
                            else parse_stage now_fail patent_no (exec_response out) s0)
               | None \<Rightarrow>
                   (None, register_direct_search_failure now_fail reason patent_no s0))
            else parse_stage now_fail patent_no (exec_response out) s0))"

subsection \<open>Fetching the details of one patent\<close>

text \<open>A Python operation that may raise: \<open>Raises\<close> stands for any exception, which
  the callers here treat alike.\<close>

datatype 'a py = Raises | Returns 'a

text \<open>Truthiness of a JSON value, as \<^verbatim>\<open>if v:\<close> tests it.\<close>

fun truthy :: "json \<Rightarrow> bool" where
  "truthy JNull = False"
| "truthy (JBool b) = b"
| "truthy (JNum n) = (n \<noteq> 0)"
| "truthy (JNonFinite n) = True"
| "truthy (JStr s) = (s \<noteq> [])"
| "truthy (JArr xs) = (xs \<noteq> [])"
| "truthy (JObj ps) = (ps \<noteq> [])"

text \<open>\<^verbatim>\<open>len(v)\<close> and \<^verbatim>\<open>v[:n]\<close> raise on \<^verbatim>\<open>None\<close>, booleans and numbers;
  slicing raises on a dictionary too.\<close>

fun has_len :: "json \<Rightarrow> bool" where
  "has_len (JStr s) = True"
| "has_len (JArr xs) = True"
| "has_len (JObj ps) = True"
| "has_len _ = False"

fun sliceable :: "json \<Rightarrow> bool" where
  "sliceable (JStr s) = True"
| "sliceable (JArr xs) = True"
| "sliceable _ = False"

text \<open>The Chinese words of the source, as the bytes of their UTF-8 encoding.\<close>

definition type_invention_application :: string where
  \<comment> \<open>U+53D1 U+660E U+7533 U+8BF7: patent type 1\<close>
  "type_invention_application = [CHR 0xE5, CHR 0x8F, CHR 0x91, CHR 0xE6, CHR 0x98, CHR 0x8E, CHR 0xE7, CHR 0x94, CHR 0xB3, CHR 0xE8, CHR 0xAF, CHR 0xB7]"

definition type_utility_model :: string where
  \<comment> \<open>U+5B9E U+7528 U+65B0 U+578B: patent type 2\<close>
  "type_utility_model = [CHR 0xE5, CHR 0xAE, CHR 0x9E, CHR 0xE7, CHR 0x94, CHR 0xA8, CHR 0xE6, CHR 0x96, CHR 0xB0, CHR 0xE5, CHR 0x9E, CHR 0x8B]"

definition type_design :: string where
  \<comment> \<open>U+5916 U+89C2 U+8BBE U+8BA1: patent type 3\<close>
  "type_design = [CHR 0xE5, CHR 0xA4, CHR 0x96, CHR 0xE8, CHR 0xA7, CHR 0x82, CHR 0xE8, CHR 0xAE, CHR 0xBE, CHR 0xE8, CHR 0xAE, CHR 0xA1]"

definition type_invention_grant :: string where
  \<comment> \<open>U+53D1 U+660E U+6388 U+6743: patent type 4\<close>
  "type_invention_grant = [CHR 0xE5, CHR 0x8F, CHR 0x91, CHR 0xE6, CHR 0x98, CHR 0x8E, CHR 0xE6, CHR 0x8E, CHR 0x88, CHR 0xE6, CHR 0x9D, CHR 0x83]"

definition label_application_date :: string where
  \<comment> \<open>U+7533 U+8BF7 U+65E5: the axis name of the application date\<close>
  "label_application_date = [CHR 0xE7, CHR 0x94, CHR 0xB3, CHR 0xE8, CHR 0xAF, CHR 0xB7, CHR 0xE6, CHR 0x97, CHR 0xA5]"

definition label_examiner :: string where
  \<comment> \<open>U+5BA1 U+67E5 U+5458: the name of the examiner item\<close>
  "label_examiner = [CHR 0xE5, CHR 0xAE, CHR 0xA1, CHR 0xE6, CHR 0x9F, CHR 0xA5, CHR 0xE5, CHR 0x91, CHR 0x98]"

text \<open>\<^verbatim>\<open>org_keywords\<close>: the 35 Chinese keywords (company, group, factory, university,
  institute, hospital and the like), then the 43 Latin ones.\<close>

definition org_keywords :: "string list" where
  "org_keywords =
     [[CHR 0xE6, CHR 0x9C, CHR 0x89, CHR 0xE9, CHR 0x99, CHR 0x90, CHR 0xE5, CHR 0x85, CHR 0xAC, CHR 0xE5, CHR 0x8F, CHR 0xB8],
      [CHR 0xE8, CHR 0x82, CHR 0xA1, CHR 0xE4, CHR 0xBB, CHR 0xBD, CHR 0xE6, CHR 0x9C, CHR 0x89, CHR 0xE9, CHR 0x99, CHR 0x90, CHR 0xE5, CHR 0x85, CHR 0xAC, CHR 0xE5, CHR 0x8F, CHR 0xB8],
      [CHR 0xE6, CHR 0x9C, CHR 0x89, CHR 0xE9, CHR 0x99, CHR 0x90, CHR 0xE8, CHR 0xB4, CHR 0xA3, CHR 0xE4, CHR 0xBB, CHR 0xBB, CHR 0xE5, CHR 0x85, CHR 0xAC, CHR 0xE5, CHR 0x8F, CHR 0xB8],
      [CHR 0xE5, CHR 0x85, CHR 0xAC, CHR 0xE5, CHR 0x8F, CHR 0xB8],
      [CHR 0xE9, CHR 0x9B, CHR 0x86, CHR 0xE5, CHR 0x9B, CHR 0xA2],
      [CHR 0xE8, CHR 0x82, CHR 0xA1, CHR 0xE4, CHR 0xBB, CHR 0xBD],
      [CHR 0xE4, CHR 0xBC, CHR 0x81, CHR 0xE4, CHR 0xB8, CHR 0x9A],
      [CHR 0xE5, CHR 0x8E, CHR 0x82],
      [CHR 0xE5, CHR 0xB7, CHR 0xA5, CHR 0xE5, CHR 0x8E, CHR 0x82],
      [CHR 0xE5, CHR 0x88, CHR 0xB6, CHR 0xE9, CHR 0x80, CHR 0xA0],
      [CHR 0xE7, CHR 0xA7, CHR 0x91, CHR 0xE6, CHR 0x8A, CHR 0x80],
      [CHR 0xE6, CHR 0x8A, CHR 0x80, CHR 0xE6, CHR 0x9C, CHR 0xAF],
      [CHR 0xE5, CHR 0xB7, CHR 0xA5, CHR 0xE4, CHR 0xB8, CHR 0x9A],
      [CHR 0xE5, CHR 0xAE, CHR 0x9E, CHR 0xE4, CHR 0xB8, CHR 0x9A],
      [CHR 0xE6, CHR 0x8E, CHR 0xA7, CHR 0xE8, CHR 0x82, CHR 0xA1],
      [CHR 0xE6, CHR 0x8A, CHR 0x95, CHR 0xE8, CHR 0xB5, CHR 0x84],
      [CHR 0xE8, CHR 0xB4, CHR 0xB8, CHR 0xE6, CHR 0x98, CHR 0x93],
      [CHR 0xE5, CHR 0x95, CHR 0x86, CHR 0xE8, CHR 0xB4, CHR 0xB8],
      [CHR 0xE7, CHR 0x94, CHR 0xB5, CHR 0xE5, CHR 0xAD, CHR 0x90],
      [CHR 0xE4, CHR 0xBF, CHR 0xA1, CHR 0xE6, CHR 0x81, CHR 0xAF],
      [CHR 0xE7, CHR 0xBD, CHR 0x91, CHR 0xE7, CHR 0xBB, CHR 0x9C],
      [CHR 0xE8, CHR 0xBD, CHR 0xAF, CHR 0xE4, CHR 0xBB, CHR 0xB6],
      [CHR 0xE5, CHR 0xA4, CHR 0xA7, CHR 0xE5, CHR 0xAD, CHR 0xA6],
      [CHR 0xE5, CHR 0xAD, CHR 0xA6, CHR 0xE9, CHR 0x99, CHR 0xA2],
      [CHR 0xE7, CHR 0xA0, CHR 0x94, CHR 0xE7, CHR 0xA9, CHR 0xB6, CHR 0xE6, CHR 0x89, CHR 0x80],
      [CHR 0xE7, CHR 0xA0, CHR 0x94, CHR 0xE7, CHR 0xA9, CHR 0xB6, CHR 0xE9, CHR 0x99, CHR 0xA2],
      [CHR 0xE7, CHR 0xA0, CHR 0x94, CHR 0xE7, CHR 0xA9, CHR 0xB6, CHR 0xE4, CHR 0xB8, CHR 0xAD, CHR 0xE5, CHR 0xBF, CHR 0x83],
      [CHR 0xE5, CHR 0xAE, CHR 0x9E, CHR 0xE9, CHR 0xAA, CHR 0x8C, CHR 0xE5, CHR 0xAE, CHR 0xA4],
      [CHR 0xE4, CHR 0xB8, CHR 0xAD, CHR 0xE5, CHR 0xBF, CHR 0x83],
      [CHR 0xE5, CHR 0xAD, CHR 0xA6, CHR 0xE6, CHR 0xA0, CHR 0xA1],
      [CHR 0xE9, CHR 0x99, CHR 0xA2, CHR 0xE6, CHR 0xA0, CHR 0xA1],
      [CHR 0xE9, CHR 0x99, CHR 0xA2],
      [CHR 0xE6, CHR 0x89, CHR 0x80],
      [CHR 0xE6, CHR 0xA0, CHR 0xA1],
      [CHR 0xE5, CHR 0x8C, CHR 0xBB, CHR 0xE9, CHR 0x99, CHR 0xA2],
      ''Limited'', ''Ltd'', ''Inc'', ''Corp'', ''Corporation'', ''Company'',
      ''Co'', ''Group'', ''Enterprise'', ''Industries'', ''Industrial'', ''Manufacturing'',
      ''Technology'', ''Technologies'', ''Systems'', ''Solutions'', ''Services'', ''International'',
      ''Global'', ''Worldwide'', ''Holdings'', ''Partners'', ''University'', ''College'',
      ''Institute'', ''Laboratory'', ''Lab'', ''Research'', ''Center'', ''Centre'',
      ''Academy'', ''School'', ''Hospital'', ''GmbH'', ''AG'', ''KGaA'',
      ''KG'', ''SE'', ''SA'', ''SAS'', ''SARL'', ''BV'',
      ''NV'']"

text \<open>
  \<^verbatim>\<open>is_organization\<close>, called on a truthy first applicant. The keyword loop is
  \<^verbatim>\<open>keyword in applicant_name\<close>: a substring test on a string, a membership test on a
  list, a key test on a dictionary, and an exception on a number or a boolean. Where no
  keyword is found, a string goes on to the pattern and character-class tests of the
  source (capital-letter acronyms, punctuation, trailing digits, short upper-case names
  and the list of known companies), whose verdict is the parameter \<open>heur\<close>: they
  read Unicode character classes, and nothing proved here depends on what they answer.
  A list or dictionary without a keyword raises in the first pattern test.
\<close>

definition is_organization :: "(string \<Rightarrow> bool) \<Rightarrow> json \<Rightarrow> bool py" where
  "is_organization heur applicant_name =
     (if \<not> truthy applicant_name then Returns False
      else
        (case applicant_name of
           JStr s \<Rightarrow> Returns (list_ex (\<lambda>keyword. contains keyword s) org_keywords \<or> heur s)
         | JArr xs \<Rightarrow>
             if list_ex (\<lambda>keyword. JStr keyword \<in> set xs) org_keywords then Returns True
             else Raises
         | JObj ps \<Rightarrow>
             if list_ex (\<lambda>keyword. map_of ps keyword \<noteq> None) org_keywords then Returns True
             else Raises
         | _ \<Rightarrow> Raises))"

text \<open>The record that \<^verbatim>\<open>parse_patent_json_for_details\<close> returns: a dictionary with
  these nine keys. Four values are strings by construction; the other five are whatever
  JSON value the response held.\<close>

record patent_record =
  patent_no :: string
  patent_type :: string
  application_date :: string
  application_number :: string
  inventors :: json
  first_applicant :: json
  abstract :: json
  examiner :: json
  first_claim :: json

text \<open>What the world outside answers during one fetch.\<close>

datatype http_result =
    Http_raised
  | Http_response nat "json option"
    \<comment> \<open>the status code, and what \<^verbatim>\<open>response.json()\<close> returns (\<open>None\<close>: it raises)\<close>

record fetch_env =
  session_ok :: bool
    \<comment> \<open>copying the browser's cookies and reading its URL did not raise\<close>
  common_info :: http_result
  base_info :: http_result
  pdfs_folder_exists :: bool
  glob_basenames :: "string list"
    \<comment> \<open>the base names of the files that match \<^verbatim>\<open>pdfs/{patent_no}_*.pdf\<close>\<close>
  heuristics :: "string \<Rightarrow> bool"

text \<open>\<^verbatim>\<open>find_examiner_from_pdf_files\<close>.\<close>

definition find_examiner_from_pdf_files :: "fetch_env \<Rightarrow> string \<Rightarrow> string \<Rightarrow> string" where
  "find_examiner_from_pdf_files env pno ptype =
     (if ptype = [] \<or> ptype \<noteq> type_invention_application then []
      else if \<not> pdfs_folder_exists env then []
      else
        (case glob_basenames env of
           [] \<Rightarrow> []
         | filename # others \<Rightarrow>
             (let name_part = take (length filename - 4) filename;
                  parts = split_on CHR ''_'' [] name_part
              in if length parts \<ge> 2 then last parts else [])))"

text \<open>Step 1: the first entry of \<^verbatim>\<open>axisSortMap\<close> named as the application date
  whose date is truthy; its hyphens are removed.\<close>

fun scan_axis :: "(string \<times> json) list \<Rightarrow> string py" where
  "scan_axis [] = Returns []"
| "scan_axis ((date_key, date_info) # rest) =
     (case date_info of
        JObj d \<Rightarrow>
          if map_of d ''axisName'' = Some (JStr label_application_date) then
            (let axis_date = get_or_empty d ''axisDate''
             in if truthy axis_date then
                  (case axis_date of
                     JStr s \<Rightarrow> Returns (py_replace ''-'' [] s)
                   | _ \<Rightarrow> Raises)
                else scan_axis rest)
          else scan_axis rest
      | _ \<Rightarrow> scan_axis rest)"

definition get_application_date :: "(string \<times> json) list \<Rightarrow> string py" where
  "get_application_date data =
     (case map_of data ''axisSortMap'' of
        None \<Rightarrow> Returns []
      | Some (JObj m) \<Rightarrow> scan_axis m
      | Some _ \<Rightarrow> Raises)"

text \<open>Steps 2 and 3 read \<^verbatim>\<open>bibliographicItems\<close>, when it is a dictionary.\<close>

definition get_inventors :: "(string \<times> json) list \<Rightarrow> json" where
  "get_inventors data =
     (case map_of data ''bibliographicItems'' of
        None \<Rightarrow> JStr []
      | Some (JObj b) \<Rightarrow> get_or_empty b ''in_or''
      | Some _ \<Rightarrow> JStr [])"

definition get_first_applicant :: "(string \<Rightarrow> bool) \<Rightarrow> (string \<times> json) list \<Rightarrow> json py" where
  "get_first_applicant heur data =
     (case map_of data ''bibliographicItems'' of
        Some (JObj b) \<Rightarrow>
          (case map_of b ''apRoot'' of
             Some (JArr (first_app # others)) \<Rightarrow>
               if truthy first_app then
                 (case is_organization heur first_app of
                    Raises \<Rightarrow> Raises
                  | Returns org \<Rightarrow> Returns (if org then first_app else JStr []))
               else Returns (JStr [])
           | _ \<Rightarrow> Returns (JStr []))
      | _ \<Rightarrow> Returns (JStr []))"

text \<open>Steps 4 and 5: a field of a sub-dictionary, whose length is then printed.\<close>

definition get_measured_field :: "(string \<times> json) list \<Rightarrow> string \<Rightarrow> string \<Rightarrow> json py" where
  "get_measured_field data section key =
     (case map_of data section of
        None \<Rightarrow> Returns (JStr [])
      | Some (JObj d) \<Rightarrow>
          (let v = get_or_empty d key in if has_len v then Returns v else Raises)
      | Some _ \<Rightarrow> Returns (JStr []))"

text \<open>Step 6: the first item of \<^verbatim>\<open>otherBibliographicItems\<close> named as the examiner
  with a truthy value.\<close>

fun scan_examiner :: "json list \<Rightarrow> json" where
  "scan_examiner [] = JStr []"
| "scan_examiner (item # rest) =
     (case item of
        JObj d \<Rightarrow>
          if get_or_empty d ''name'' = JStr label_examiner \<and> truthy (get_or_empty d ''value'')
          then get_or_empty d ''value''
          else scan_examiner rest
      | _ \<Rightarrow> scan_examiner rest)"

definition get_examiner :: "(string \<times> json) list \<Rightarrow> json" where
  "get_examiner data =
     (case map_of data ''otherBibliographicItems'' of
        Some (JArr items) \<Rightarrow> scan_examiner items
      | _ \<Rightarrow> JStr [])"

definition parse_patent_json_for_details ::
    "fetch_env \<Rightarrow> (string \<times> json) list \<Rightarrow> string \<Rightarrow> string \<Rightarrow> string \<Rightarrow> patent_record py" where
  "parse_patent_json_for_details env data pno ptype appno =
     (case get_application_date data of
        Raises \<Rightarrow> Raises
      | Returns adate \<Rightarrow>
          (case get_first_applicant (heuristics env) data of
             Raises \<Rightarrow> Raises
           | Returns applicant \<Rightarrow>
               (case get_measured_field data ''summaryInformation'' ''ab_cn'' of
                  Raises \<Rightarrow> Raises
                | Returns abstr \<Rightarrow>
                    (case get_measured_field data ''firstClaim'' ''first_claim_or'' of
                       Raises \<Rightarrow> Raises
                     | Returns claim \<Rightarrow>
                         (let examiner0 = get_examiner data;
                              examiner1 =
                                (if \<not> truthy examiner0 \<and> ptype = type_invention_application
                                 then JStr (find_examiner_from_pdf_files env pno ptype)
                                 else examiner0)
                          in Returns
                               \<lparr>patent_no = pno, patent_type = ptype, application_date = adate,
                                application_number = appno, inventors = get_inventors data,
                                first_applicant = applicant, abstract = abstr,
                                examiner = examiner1, first_claim = claim\<rparr>)))))"

text \<open>The body of a successful API answer: status 200, a JSON object whose
  \<^verbatim>\<open>status\<close> is truthy. \<open>Returns None\<close> is the early \<^verbatim>\<open>return None\<close>.\<close>

definition api_result :: "http_result \<Rightarrow> (string \<times> json) list option py" where
  "api_result r =
     (case r of
        Http_raised \<Rightarrow> Raises
      | Http_response code body \<Rightarrow>
          if code \<noteq> 200 then Returns None
          else (case body of
                  None \<Rightarrow> Raises
                | Some (JObj result) \<Rightarrow>
                    if \<not> truthy (case map_of result ''status'' of None \<Rightarrow> JNull | Some v \<Rightarrow> v)
                    then Returns None else Returns (Some result)
                | Some _ \<Rightarrow> Raises))"

text \<open>\<^verbatim>\<open>result.get('data', {})\<close>.\<close>

definition get_data :: "(string \<times> json) list \<Rightarrow> json" where
  "get_data result = (case map_of result ''data'' of None \<Rightarrow> JObj [] | Some v \<Rightarrow> v)"

text \<open>\<^verbatim>\<open>type_map.get(pt, "")\<close>: a list or a dictionary cannot be hashed.\<close>

definition type_label :: "json \<Rightarrow> string py" where
  "type_label pt =
     (case pt of
        JArr xs \<Rightarrow> Raises
      | JObj ps \<Rightarrow> Raises
      | JStr s \<Rightarrow>
          Returns (if s = ''1'' then type_invention_application
                   else if s = ''2'' then type_utility_model
                   else if s = ''3'' then type_design
                   else if s = ''4'' then type_invention_grant
                   else [])
      | _ \<Rightarrow> Returns [])"

text \<open>\<^verbatim>\<open>an.replace('CN', '') if an.startswith('CN') else an\<close>.\<close>

definition strip_cn :: "string \<Rightarrow> string" where
  "strip_cn an = (if startswith an ''CN'' then py_replace ''CN'' [] an else an)"

text \<open>
  \<^verbatim>\<open>fetch_details_immediately\<close>: \<open>None\<close> is every \<^verbatim>\<open>return None\<close> of the source,
  the one of its \<^verbatim>\<open>except\<close> clause included.
\<close>

definition fetch_details_immediately :: "fetch_env \<Rightarrow> tokens \<Rightarrow> string \<Rightarrow> patent_record option" where
  "fetch_details_immediately env toks pno =
     (let pnk = get_or_empty toks ''pnk'' in
      if \<not> truthy pnk then None
      else if \<not> sliceable pnk then None
      else if \<not> session_ok env then None
      else
        (case api_result (common_info env) of
           Raises \<Rightarrow> None
         | Returns None \<Rightarrow> None
         | Returns (Some result) \<Rightarrow>
             (case get_data result of
                JObj common_data \<Rightarrow>
                  (case type_label (get_or_empty common_data ''pt'') of
                     Raises \<Rightarrow> None
                   | Returns ptype \<Rightarrow>
                       (case api_result (base_info env) of
                          Raises \<Rightarrow> None
                        | Returns None \<Rightarrow> None
                        | Returns (Some result2) \<Rightarrow>
                            (case get_data result2 of
                               JObj data \<Rightarrow>
                                 if data = [] then None
                                 else
                                   (case get_or_empty common_data ''an'' of
                                      JStr an \<Rightarrow>
                                        (case parse_patent_json_for_details env data pno ptype
                                                (strip_cn an) of
                                           Raises \<Rightarrow> None
                                         | Returns details \<Rightarrow> Some details)
                                    | _ \<Rightarrow> None)
                             | _ \<Rightarrow> None)))
              | _ \<Rightarrow> None)))"

lemma api_result_Some:
  "api_result r = Returns (Some result) \<Longrightarrow>
   r = Http_response 200 (Some (JObj result))
   \<and> (\<exists>v. map_of result ''status'' = Some v \<and> truthy v)"
  by (auto simp: api_result_def split: http_result.splits if_splits option.splits json.splits)

lemma get_first_applicant_not_null: "get_first_applicant heur data = Returns a \<Longrightarrow> a \<noteq> JNull"
  by (auto simp: get_first_applicant_def
      split: option.splits json.splits list.splits if_splits py.splits)

lemma get_measured_field_not_null: "get_measured_field data section key = Returns v \<Longrightarrow> v \<noteq> JNull"
  by (auto simp: get_measured_field_def Let_def split: option.splits json.splits if_splits)

lemma scan_examiner_not_null: "scan_examiner items \<noteq> JNull"
  by (induction items rule: scan_examiner.induct) (auto split: json.splits)

lemma get_examiner_not_null: "get_examiner data \<noteq> JNull"
  by (auto simp: get_examiner_def scan_examiner_not_null split: option.splits json.splits)

lemma get_inventors_null:
  "get_inventors data = JNull \<Longrightarrow>
   \<exists>b. map_of data ''bibliographicItems'' = Some (JObj b) \<and> map_of b ''in_or'' = Some JNull"
  by (auto simp: get_inventors_def get_or_empty_def split: option.splits json.splits)

lemma parse_patent_json_for_details_fields:
  assumes "parse_patent_json_for_details env data pno ptype appno = Returns r"
  shows "patent_no r = pno" and "patent_type r = ptype" and "application_number r = appno"
    and "inventors r = get_inventors data"
    and "first_applicant r \<noteq> JNull" and "abstract r \<noteq> JNull"
    and "examiner r \<noteq> JNull" and "first_claim r \<noteq> JNull"
  using assms get_examiner_not_null [of data]
  by (auto simp: parse_patent_json_for_details_def Let_def
      dest: get_first_applicant_not_null get_measured_field_not_null
      split: py.splits if_splits)

lemma fetch_details_immediately_Some:
  assumes "fetch_details_immediately env toks pno = Some r"
  shows "\<exists>result common_data ptype result2 data an.
           api_result (common_info env) = Returns (Some result)
           \<and> get_data result = JObj common_data
           \<and> api_result (base_info env) = Returns (Some result2)
           \<and> get_data result2 = JObj data \<and> data \<noteq> []
           \<and> get_or_empty common_data ''an'' = JStr an
           \<and> parse_patent_json_for_details env data pno ptype (strip_cn an) = Returns r"
  using assms
  by (auto simp: fetch_details_immediately_def Let_def
      split: if_splits py.splits option.splits json.splits)

subsection \<open>Processing one patent\<close>

text \<open>How \<^verbatim>\<open>search_patent_with_guards\<close> ends; the browser decides. Only a search
  found by the fallback leaves \<^verbatim>\<open>last_search_used_fallback\<close> set.\<close>

datatype search_outcome = Found_primary | Found_fallback | Not_found | Search_raised

record single_env =
  pnk_page :: "json py"
    \<comment> \<open>what \<^verbatim>\<open>_extract_pnk_from_page\<close> of the parent class returns, or that it raises\<close>
  search :: search_outcome
  search_time :: rat
  token_time :: rat
  fetch_time :: rat
  fetch :: fetch_env

text \<open>\<^verbatim>\<open>extract_tokens_from_network\<close>: the key found on the page, if any; an
  exception is caught there.\<close>

definition extract_tokens_from_network :: "json py \<Rightarrow> tokens option" where
  "extract_tokens_from_network out =
     (case out of
        Raises \<Rightarrow> None
      | Returns pnk \<Rightarrow> if truthy pnk then Some [(''pnk'', pnk)] else None)"

text \<open>
  The end of \<^verbatim>\<open>process_single_patent_realtime\<close>, from the fetch on. After a
  successful fetch the source prints \<^verbatim>\<open>patent_data.get('inventors', '')[:30]\<close>, which
  raises when the inventors cannot be sliced; the \<^verbatim>\<open>except\<close> clause then returns
  \<^verbatim>\<open>None\<close>. The operating mode is only updated when the search was not skipped.
\<close>

definition finish_single ::
    "single_env \<Rightarrow> string \<Rightarrow> bool \<Rightarrow> tokens \<Rightarrow> processor \<Rightarrow> patent_record option \<times> processor" where
  "finish_single env pno skip_search toks s =
     (case fetch_details_immediately (fetch env) toks pno of
        None \<Rightarrow>
          (None, if skip_search then s
                 else update_performance_profile False (last_search_used_fallback s) s)
      | Some patent_data \<Rightarrow>
          (let s1 = record_stage_time ''fetch'' (fetch_time env) s in
           if \<not> sliceable (inventors patent_data) then
             (None, if skip_search then s1
                    else update_performance_profile False (last_search_used_fallback s1) s1)
           else
             (Some patent_data,
              if skip_search then s1
              else update_performance_profile True (last_search_used_fallback s1) s1)))"

definition process_single_patent_realtime ::
    "single_env \<Rightarrow> string \<Rightarrow> bool \<Rightarrow> processor \<Rightarrow> patent_record option \<times> processor" where
  "process_single_patent_realtime env pno skip_search s =
     (if skip_search then
        (case pnk_page env of
           Raises \<Rightarrow> (None, s)
         | Returns pnk \<Rightarrow>
             if \<not> truthy pnk then (None, s)
             else finish_single env pno True [(''pnk'', pnk), (''patent_no'', JStr pno)]
                    (record_stage_time ''token'' (token_time env) s))
      else
        (let s0 = s\<lparr>last_search_used_fallback := False\<rparr> in
         case search env of
           Search_raised \<Rightarrow> (None, update_performance_profile False False s0)
         | Not_found \<Rightarrow>
             (None, update_performance_profile False False
                      (s0\<lparr>search_fail_count := search_fail_count s0 + 1\<rparr>))
         | found \<Rightarrow>
             (let s1 = s0\<lparr>last_search_used_fallback := (found = Found_fallback),
                           search_success_count := search_success_count s0 + 1\<rparr>;
                  s2 = record_stage_time ''search'' (search_time env) s1
              in case extract_tokens_from_network (pnk_page env) of
                   None \<Rightarrow>
                     (None, update_performance_profile False (last_search_used_fallback s2) s2)
                 | Some toks \<Rightarrow>
                     finish_single env pno False (dict_set toks ''patent_no'' (JStr pno))
                       (record_stage_time ''token'' (token_time env) s2))))"

subsection \<open>The batch loop\<close>

text \<open>What the world outside answers in one turn of the loop: the restart of the browser
  (asked for after three failures in a row), the processing of the patent, and how
  \<^verbatim>\<open>save_results_realtime\<close> ends. It writes the JSON file and then the CSV file:
  either both are written, or the CSV file raises after the JSON file is written, or
  opening the JSON file raises and leaves it as it was.\<close>

datatype restart_outcome = Restart_ok | Restart_login_failed | Restart_raised

datatype save_outcome = Saved | Saved_json_only | Save_raised

record iter_env =
  restart :: restart_outcome
  single :: single_env
  save :: save_outcome

datatype start_outcome = Start_ok | Start_login_failed | Start_raised

text \<open>How the loop was left: at the end of the list, by \<^verbatim>\<open>break\<close>, or by an
  exception that the outer \<^verbatim>\<open>except\<close> clause caught.\<close>

datatype loop_end = Finished | Broke | Aborted

text \<open>
  The local variables of \<^verbatim>\<open>process_batch_realtime\<close>, the processor, the records in
  the output file (\<open>saved\<close>), and the identifiers handed to
  \<^verbatim>\<open>process_single_patent_realtime\<close> so far (\<open>attempted\<close>, a trace that the source
  does not keep).
\<close>

record batch_state =
  results :: "patent_record list"
  failed_patents :: "string list"
  unavailable_patents :: "string list"
  consecutive_failures :: nat
  consecutive_not_found :: nat
  proc :: processor
  saved :: "patent_record list"
  attempted :: "string list"

text \<open>One turn of the loop after the two tests at its head: the patent is processed and
  the outcome recorded. The boolean says whether the loop goes on: an exception of
  \<^verbatim>\<open>save_results_realtime\<close> ends it.\<close>

definition process_and_record :: "iter_env \<Rightarrow> bool \<Rightarrow> string \<Rightarrow> batch_state \<Rightarrow> batch_state \<times> bool" where
  "process_and_record env skip_search pno st =
     (case process_single_patent_realtime (single env) pno skip_search (proc st) of
        (Some patent_data, p) \<Rightarrow>
          (let st1 = st\<lparr>results := results st @ [patent_data], consecutive_failures := 0,
                         consecutive_not_found := 0, proc := p,
                         attempted := attempted st @ [pno]\<rparr>
           in case save env of
                Saved \<Rightarrow> (st1\<lparr>saved := results st1\<rparr>, True)
              | Saved_json_only \<Rightarrow> (st1\<lparr>saved := results st1\<rparr>, False)
              | Save_raised \<Rightarrow> (st1, False))
      | (None, p) \<Rightarrow>
          (st\<lparr>consecutive_not_found :=
                 (if search_fail_count p > length (failed_patents st)
                  then consecutive_not_found st + 1 else 0),
               consecutive_failures := consecutive_failures st + 1,
               failed_patents := failed_patents st @ [pno],
               proc := p, attempted := attempted st @ [pno]\<rparr>, True))"

fun batch_loop ::
    "(nat \<Rightarrow> iter_env) \<Rightarrow> bool \<Rightarrow> bool \<Rightarrow> nat \<Rightarrow> string list \<Rightarrow> batch_state
     \<Rightarrow> batch_state \<times> loop_end" where
  "batch_loop env skip_unavailable skip_search i [] st = (st, Finished)"
| "batch_loop env skip_unavailable skip_search i (pno # rest) st =
     (if skip_unavailable \<and> consecutive_not_found st \<ge> 5 then
        batch_loop env skip_unavailable skip_search (i + 1) rest
          (st\<lparr>unavailable_patents := unavailable_patents st @ [pno], consecutive_not_found := 0\<rparr>)
      else if consecutive_failures st \<ge> 3 \<and> restart (env i) = Restart_raised then (st, Aborted)
      else if consecutive_failures st \<ge> 3 \<and> restart (env i) = Restart_login_failed then (st, Broke)
      else
        (let st0 = (if consecutive_failures st \<ge> 3 then st\<lparr>consecutive_failures := 0\<rparr> else st)
         in case process_and_record (env i) skip_search pno st0 of
              (st1, True) \<Rightarrow> batch_loop env skip_unavailable skip_search (i + 1) rest st1
            | (st1, False) \<Rightarrow> (st1, Aborted)))"

record batch_result =
  returned :: "patent_record list"
  final :: batch_state
  ending :: "loop_end option"

text \<open>
  \<^verbatim>\<open>process_batch_realtime\<close>. \<open>existing\<close> is the list read from the output file (empty
  when there is none); \<open>start\<close> says how creating the browser and logging in went.
\<close>

definition process_batch_realtime ::
    "(nat \<Rightarrow> iter_env) \<Rightarrow> start_outcome \<Rightarrow> patent_record list \<Rightarrow> string list \<Rightarrow> bool \<Rightarrow> bool
     \<Rightarrow> processor \<Rightarrow> batch_result" where
  "process_batch_realtime env start existing patent_list skip_unavailable skip_search s =
     (let completed_patents = set (map patent_no existing);
          remaining_patents = filter (\<lambda>p. p \<notin> completed_patents) patent_list;
          st0 = \<lparr>results = existing, failed_patents = [], unavailable_patents = [],
                 consecutive_failures = 0, consecutive_not_found = 0, proc = s,
                 saved = existing, attempted = []\<rparr>
      in if remaining_patents = [] then \<lparr>returned = [], final = st0, ending = None\<rparr>
         else
           (case start of
              Start_raised \<Rightarrow> \<lparr>returned = existing, final = st0, ending = None\<rparr>
            | Start_login_failed \<Rightarrow> \<lparr>returned = [], final = st0, ending = None\<rparr>
            | Start_ok \<Rightarrow>
                (case batch_loop env skip_unavailable skip_search 1 remaining_patents st0 of
                   (st, e) \<Rightarrow> \<lparr>returned = results st, final = st, ending = Some e\<rparr>)))"

lemma record_stage_time_search_fail_count [simp]:
  "search_fail_count (record_stage_time stage d s) = search_fail_count s"
  by (simp add: record_stage_time_def Let_def split: option.splits)

lemma finish_single_patent_no:
  "finish_single env pno skip_search toks s = (Some r, s') \<Longrightarrow> patent_no r = pno"
proof -
  assume a: "finish_single env pno skip_search toks s = (Some r, s')"
  then have f: "fetch_details_immediately (fetch env) toks pno = Some r"
    by (auto simp: finish_single_def Let_def split: option.splits if_splits)
  then obtain data ptype an where
    "parse_patent_json_for_details (fetch env) data pno ptype (strip_cn an) = Returns r"
    using fetch_details_immediately_Some [OF f] by blast
  then show "patent_no r = pno" by (rule parse_patent_json_for_details_fields(1))
qed

lemma finish_single_skip_search:
  "finish_single env pno True toks s = (r, s') \<Longrightarrow> search_fail_count s' = search_fail_count s"
  by (auto simp: finish_single_def Let_def split: option.splits if_splits)

lemma process_single_patent_no:
  "process_single_patent_realtime env pno skip_search s = (Some r, s') \<Longrightarrow> patent_no r = pno"
  by (auto simp: process_single_patent_realtime_def Let_def
      dest: finish_single_patent_no
      split: if_splits py.splits search_outcome.splits option.splits)

lemma process_single_skip_search:
  "process_single_patent_realtime env pno True s = (r, s') \<Longrightarrow>
   search_fail_count s' = search_fail_count s"
  by (auto simp: process_single_patent_realtime_def
      dest: finish_single_skip_search split: py.splits if_splits)


lemma process_and_record_effect:
  assumes "process_and_record env skip_search pno st = (st', ok)"
  shows "attempted st' = attempted st @ [pno]"
    and "results st' = results st \<or> (\<exists>r. results st' = results st @ [r] \<and> patent_no r = pno)"
    and "saved st' = saved st \<or> saved st' = results st'"
    and "unavailable_patents st' = unavailable_patents st"
  using assms
  by (auto simp: process_and_record_def Let_def dest: process_single_patent_no
      split: prod.splits option.splits save_outcome.splits)

lemma process_and_record_skip_search:
  assumes "process_and_record env True pno st = (st', ok)"
    and "search_fail_count (proc st) = 0"
  shows "search_fail_count (proc st') = 0" and "consecutive_not_found st' = 0"
  using assms
  by (auto simp: process_and_record_def Let_def dest: process_single_skip_search
      split: prod.splits option.splits save_outcome.splits)

lemma batch_loop_Cons_cases:
  assumes "batch_loop env su ss i (pno # rest) st = (st', e)"
  obtains
    (skip) "su" and "5 \<le> consecutive_not_found st"
      and "batch_loop env su ss (i + 1) rest
             (st\<lparr>unavailable_patents := unavailable_patents st @ [pno],
                 consecutive_not_found := 0\<rparr>) = (st', e)"
  | (stop) "\<not> (su \<and> 5 \<le> consecutive_not_found st)" and "st' = st" and "e \<noteq> Finished"
  | (abort) st0 where "\<not> (su \<and> 5 \<le> consecutive_not_found st)"
      and "st0 = st \<or> st0 = st\<lparr>consecutive_failures := 0\<rparr>"
      and "process_and_record (env i) ss pno st0 = (st', False)" and "e = Aborted"
  | (continue) st0 st1 where "\<not> (su \<and> 5 \<le> consecutive_not_found st)"
      and "st0 = st \<or> st0 = st\<lparr>consecutive_failures := 0\<rparr>"
      and "process_and_record (env i) ss pno st0 = (st1, True)"
      and "batch_loop env su ss (i + 1) rest st1 = (st', e)"
proof (cases "su \<and> 5 \<le> consecutive_not_found st")
  case True
  then show ?thesis using assms skip by simp
next
  case False
  show ?thesis
  proof (cases "3 \<le> consecutive_failures st \<and> restart (env i) \<noteq> Restart_ok")
    case True
    then have "st' = st \<and> e \<noteq> Finished"
      using assms False by (cases "restart (env i)") (auto split: if_splits)
    then show ?thesis using stop False by simp
  next
    case ok: False
    define st0 where "st0 = (if 3 \<le> consecutive_failures st then st\<lparr>consecutive_failures := 0\<rparr> else st)"
    have st0: "st0 = st \<or> st0 = st\<lparr>consecutive_failures := 0\<rparr>" by (simp add: st0_def)
    obtain st1 b where pr: "process_and_record (env i) ss pno st0 = (st1, b)"
      by (cases "process_and_record (env i) ss pno st0")
    have eq: "batch_loop env su ss i (pno # rest) st
        = (if b then batch_loop env su ss (i + 1) rest st1 else (st1, Aborted))"
      using False ok pr by (auto simp: st0_def Let_def)
    show ?thesis
    proof (cases b)
      case True
      then show ?thesis using continue [OF False st0] pr eq assms by simp
    next
      case b: False
      then have "st' = st1" "e = Aborted" using eq assms by simp_all
      then show ?thesis using abort [OF False st0] pr b by simp
    qed
  qed
qed

lemma batch_loop_skip_search:
  "batch_loop env su True i list st = (st', e) \<Longrightarrow>
   search_fail_count (proc st) = 0 \<Longrightarrow> consecutive_not_found st = 0 \<Longrightarrow>
   search_fail_count (proc st') = 0 \<and> consecutive_not_found st' = 0
   \<and> unavailable_patents st' = unavailable_patents st
   \<and> (e = Finished \<longrightarrow> attempted st' = attempted st @ list)"
proof (induction list arbitrary: i st)
  case Nil
  then show ?case by simp
next
  case (Cons pno rest)
  from Cons.prems(1) show ?case
  proof (cases rule: batch_loop_Cons_cases)
    case skip
    then show ?thesis using Cons.prems by simp
  next
    case stop
    then show ?thesis using Cons.prems by simp
  next
    case (abort st0)
    then have p0: "search_fail_count (proc st0) = 0" using Cons.prems by auto
    have "unavailable_patents st0 = unavailable_patents st" using abort(2) by auto
    then show ?thesis
      using process_and_record_skip_search [OF abort(3) p0]
        process_and_record_effect(4) [OF abort(3)] abort(4) by simp
  next
    case (continue st0 st1)
    then have p0: "search_fail_count (proc st0) = 0" using Cons.prems by auto
    have u0: "unavailable_patents st0 = unavailable_patents st"
      and a0: "attempted st0 = attempted st" using continue(2) by auto
    have s1: "search_fail_count (proc st1) = 0" "consecutive_not_found st1 = 0"
      using process_and_record_skip_search [OF continue(3) p0] by simp_all
    have u1: "unavailable_patents st1 = unavailable_patents st"
      using process_and_record_effect(4) [OF continue(3)] u0 by simp
    have a1: "attempted st1 = attempted st @ [pno]"
      using process_and_record_effect(1) [OF continue(3)] a0 by simp
    show ?thesis using Cons.IH [OF continue(4) s1] u1 a1 by simp
  qed
qed

lemma batch_loop_results:
  "batch_loop env su ss i list st = (st', e) \<Longrightarrow>
   (\<exists>new. results st' = results st @ new \<and> subseq (map patent_no new) list
      \<and> (saved st' = saved st \<or> (\<exists>m. saved st' = results st @ take m new)))
   \<and> (\<exists>att. attempted st' = attempted st @ att \<and> subseq att list)"
proof (induction list arbitrary: i st)
  case Nil
  then show ?case by simp
next
  case (Cons pno rest)
  from Cons.prems show ?case
  proof (cases rule: batch_loop_Cons_cases)
    case skip
    from Cons.IH [OF skip(3)] obtain new att where
      "results st' = results st @ new" "subseq (map patent_no new) rest"
      "saved st' = saved st \<or> (\<exists>m. saved st' = results st @ take m new)"
      "attempted st' = attempted st @ att" "subseq att rest"
      by auto
    moreover have "subseq (map patent_no new) (pno # rest)" and "subseq att (pno # rest)"
      using \<open>subseq (map patent_no new) rest\<close> \<open>subseq att rest\<close> by (auto intro: list_emb_Cons)
    ultimately show ?thesis by blast
  next
    case stop
    have "results st' = results st @ [] \<and> subseq (map patent_no []) (pno # rest)
      \<and> (saved st' = saved st \<or> (\<exists>m. saved st' = results st @ take m []))"
      using stop by simp
    moreover have "attempted st' = attempted st @ [] \<and> subseq [] (pno # rest)"
      using stop by simp
    ultimately show ?thesis by blast
  next
    case (abort st0)
    have r0: "results st0 = results st" "saved st0 = saved st" "attempted st0 = attempted st"
      using abort(2) by auto
    have "\<exists>d. results st' = results st @ d \<and> subseq (map patent_no d) (pno # rest)"
      using process_and_record_effect(2) [OF abort(3)] r0
    proof (elim disjE exE conjE)
      assume "results st' = results st0"
      then have "results st' = results st @ [] \<and> subseq (map patent_no []) (pno # rest)"
        using r0 by simp
      then show ?thesis by blast
    next
      fix r assume "results st' = results st0 @ [r]" and "patent_no r = pno"
      then have "results st' = results st @ [r] \<and> subseq (map patent_no [r]) (pno # rest)"
        using r0 by simp
      then show ?thesis by blast
    qed
    then obtain d where d: "results st' = results st @ d"
      "subseq (map patent_no d) (pno # rest)" by blast
    have s: "saved st' = saved st \<or> saved st' = results st @ take (length d) d"
      using process_and_record_effect(3) [OF abort(3)] r0 d by simp
    have a: "attempted st' = attempted st @ [pno]" "subseq [pno] (pno # rest)"
      using process_and_record_effect(1) [OF abort(3)] r0 by simp_all
    show ?thesis using d s a by blast
  next
    case (continue st0 st1)
    have r0: "results st0 = results st" "saved st0 = saved st" "attempted st0 = attempted st"
      using continue(2) by auto
    have "\<exists>d. results st1 = results st @ d \<and> subseq (map patent_no d) [pno]"
      using process_and_record_effect(2) [OF continue(3)] r0
    proof (elim disjE exE conjE)
      assume "results st1 = results st0"
      then have "results st1 = results st @ [] \<and> subseq (map patent_no []) [pno]"
        using r0 by simp
      then show ?thesis by blast
    next
      fix r assume "results st1 = results st0 @ [r]" and "patent_no r = pno"
      then have "results st1 = results st @ [r] \<and> subseq (map patent_no [r]) [pno]"
        using r0 by simp
      then show ?thesis by blast
    qed
    then obtain d where d: "results st1 = results st @ d" "subseq (map patent_no d) [pno]"
      by blast
    have s1: "saved st1 = saved st \<or> saved st1 = results st @ d"
      using process_and_record_effect(3) [OF continue(3)] r0 d by simp
    have a1: "attempted st1 = attempted st @ [pno]"
      using process_and_record_effect(1) [OF continue(3)] r0 by simp
    from Cons.IH [OF continue(4)] obtain new att where
      n: "results st' = results st1 @ new" "subseq (map patent_no new) rest"
      and s: "saved st' = saved st1 \<or> (\<exists>m. saved st' = results st1 @ take m new)"
      and a: "attempted st' = attempted st1 @ att" "subseq att rest"
      by auto
    have 1: "results st' = results st @ (d @ new)" using n d by simp
    have 2: "subseq (map patent_no (d @ new)) (pno # rest)"
      using list_emb_append_mono [OF d(2) n(2)] by simp
    have 3: "saved st' = saved st \<or> (\<exists>m. saved st' = results st @ take m (d @ new))"
    proof -
      have "results st @ d = results st @ take (length d) (d @ new)" by simp
      moreover have "\<And>m. results st1 @ take m new = results st @ take (length d + m) (d @ new)"
        using d by simp
      ultimately show ?thesis using s s1 by metis
    qed
    have 4: "attempted st' = attempted st @ (pno # att)" "subseq (pno # att) (pno # rest)"
      using a a1 by simp_all
    show ?thesis using 1 2 3 4 by blast
  qed
qed


lemma batch_loop_append:
  "batch_loop env su ss i (xs @ ys) st =
     (case batch_loop env su ss i xs st of
        (st1, Finished) \<Rightarrow> batch_loop env su ss (i + length xs) ys st1
      | (st1, e) \<Rightarrow> (st1, e))"
  by (induction xs arbitrary: i st)
     (auto simp: Let_def split: prod.splits bool.splits loop_end.splits)

lemma subseq_set: "subseq xs ys \<Longrightarrow> set xs \<subseteq> set ys"
  by (induction rule: list_emb.induct) auto

lemma subseq_distinct: "subseq xs ys \<Longrightarrow> distinct ys \<Longrightarrow> distinct xs"
  by (induction rule: list_emb.induct) (auto dest: subseq_set)

lemma subseq_take_map: "subseq (map f (take m xs)) (map f xs)"
  by (rule subseq_map) (rule prefix_imp_subseq, rule take_is_prefix)

lemma process_batch_realtime_shape:
  fixes existing patent_list
  defines "remaining \<equiv> filter (\<lambda>p. p \<notin> set (map patent_no existing)) patent_list"
  assumes "r = process_batch_realtime env start existing patent_list su ss s"
  shows "subseq (attempted (final r)) remaining"
    and "\<exists>new. saved (final r) = existing @ new \<and> subseq (map patent_no new) remaining"
proof -
  let ?st0 = "\<lparr>results = existing, failed_patents = [], unavailable_patents = [],
                consecutive_failures = 0, consecutive_not_found = 0, proc = s,
                saved = existing, attempted = []\<rparr>"
  have triv: "subseq (attempted ?st0) remaining"
    "saved ?st0 = existing @ [] \<and> subseq (map patent_no []) remaining" by simp_all
  show "subseq (attempted (final r)) remaining"
    and "\<exists>new. saved (final r) = existing @ new \<and> subseq (map patent_no new) remaining"
  proof (atomize (full), cases "remaining \<noteq> [] \<and> start = Start_ok")
    case False
    then have "final r = ?st0"
      using assms(2) unfolding process_batch_realtime_def Let_def remaining_def
      by (cases start) auto
    then show "subseq (attempted (final r)) remaining
      \<and> (\<exists>new. saved (final r) = existing @ new \<and> subseq (map patent_no new) remaining)"
      using triv by (metis (no_types))
  next
    case True
    obtain st' e where l: "batch_loop env su ss 1 remaining ?st0 = (st', e)"
      by (cases "batch_loop env su ss 1 remaining ?st0")
    have f: "final r = st'"
      using True assms(2) l unfolding process_batch_realtime_def Let_def remaining_def by simp
    from batch_loop_results [OF l] obtain new att where
      n: "subseq (map patent_no new) remaining"
      and sv: "saved st' = existing \<or> (\<exists>m. saved st' = existing @ take m new)"
      and a: "attempted st' = att" "subseq att remaining"
      by auto
    have "\<exists>new'. saved st' = existing @ new' \<and> subseq (map patent_no new') remaining"
      using sv
    proof
      assume "saved st' = existing"
      then have "saved st' = existing @ [] \<and> subseq (map patent_no []) remaining" by simp
      then show ?thesis by blast
    next
      assume "\<exists>m. saved st' = existing @ take m new"
      then obtain m where m: "saved st' = existing @ take m new" by blast
      have "subseq (map patent_no (take m new)) remaining"
        using subseq_order.trans [OF subseq_take_map n] .
      with m show ?thesis by blast
    qed
    then show "subseq (attempted (final r)) remaining
      \<and> (\<exists>new. saved (final r) = existing @ new \<and> subseq (map patent_no new) remaining)"
      using a f by simp
  qed
qed

section \<open>Concrete inputs\<close>

definition base0 :: batch_token_extractor where
  "base0 = \<lparr>direct_search_template = None, direct_search_failures = 0,
      direct_search_disabled_until = 0, direct_search_blocklist = {},
      direct_search_timeout = 6\<rparr>"

definition template0 :: template where
  "template0 = \<lparr>t_url = ''https://www.incopat.com/search?q={PATENT_NO}'', t_method = ''GET'',
      t_headers = [], t_body_template = None\<rparr>"

definition s_two_failures :: processor where
  "s_two_failures = (RealTimeProcessor_init base0)
     \<lparr>direct_search_template := Some template0, direct_search_failures := 2\<rparr>"

definition s_blocked :: processor where
  "s_blocked = (RealTimeProcessor_init base0)
     \<lparr>direct_search_template := Some template0, direct_search_blocklist := {''CN102345678A''}\<rparr>"

lemmas init_defs = RealTimeProcessor_init_def batch_token_extractor.extend_def
  processor.fields_def base0_def

definition s_norm :: processor where
  "s_norm = (RealTimeProcessor_init base0)\<lparr>performance_mode := Normal\<rparr>"

definition s_slow :: processor where
  "s_slow = (RealTimeProcessor_init base0)\<lparr>speed_stats := [''search'' \<mapsto> [13, 14]]\<rparr>"

definition c1_text :: string where
  "c1_text = ''{\"data\":\"pnk=ABC%26oid%3D123&folderFlag=X\"}''"

definition c1_decoded :: string where
  "c1_decoded = ''{\"data\":\"pnk=ABC&oid=123&folderFlag=X\"}''"


definition tokens_ok :: tokens where
  "tokens_ok = [(''pnk'', JStr ''PNK1''), (''patent_no'', JStr ''CN102345678A'')]"

definition common_ok :: http_result where
  "common_ok = Http_response 200 (Some (JObj
     [(''status'', JBool True),
      (''data'', JObj [(''pt'', JStr ''1''), (''an'', JStr ''CN2010CN5'')])]))"

definition base_ok :: http_result where
  "base_ok = Http_response 200 (Some (JObj
     [(''status'', JBool True),
      (''data'', JObj
         [(''axisSortMap'', JObj
             [(''1'', JObj [(''axisName'', JStr label_application_date),
                            (''axisDate'', JStr ''2010-05-06'')])]),
          (''bibliographicItems'', JObj
             [(''in_or'', JStr ''Li Lei''), (''apRoot'', JArr [JStr ''Acme Ltd''])]),
          (''summaryInformation'', JObj [(''ab_cn'', JStr ''A pump.'')]),
          (''firstClaim'', JObj [(''first_claim_or'', JStr ''1. A pump.'')])])]))"

definition base_null_inventors :: http_result where
  "base_null_inventors = Http_response 200 (Some (JObj
     [(''status'', JBool True),
      (''data'', JObj [(''bibliographicItems'', JObj [(''in_or'', JNull)])])]))"

definition env_of :: "http_result \<Rightarrow> fetch_env" where
  "env_of base =
     \<lparr>session_ok = True, common_info = common_ok, base_info = base,
      pdfs_folder_exists = True, glob_basenames = [''CN102345678A_Wang.pdf''],
      heuristics = (\<lambda>s. False)\<rparr>"

definition record_ok :: patent_record where
  "record_ok =
     \<lparr>patent_no = ''CN102345678A'', patent_type = type_invention_application,
      application_date = ''20100506'', application_number = ''20105'',
      inventors = JStr ''Li Lei'', first_applicant = JStr ''Acme Ltd'',
      abstract = JStr ''A pump.'', examiner = JStr ''Wang'',
      first_claim = JStr ''1. A pump.''\<rparr>"

definition record_null_inventors :: patent_record where
  "record_null_inventors =
     \<lparr>patent_no = ''CN102345678A'', patent_type = type_invention_application,
      application_date = [], application_number = ''20105'',
      inventors = JNull, first_applicant = JStr [],
      abstract = JStr [], examiner = JStr ''Wang'',
      first_claim = JStr []\<rparr>"

definition single_ok :: single_env where
  "single_ok = \<lparr>pnk_page = Returns (JStr ''PNK1''), search = Found_primary,
      search_time = 2, token_time = 1 / 2, fetch_time = 1, fetch = env_of base_ok\<rparr>"

definition iter_ok :: iter_env where
  "iter_ok = \<lparr>restart = Restart_ok, single = single_ok, save = Saved\<rparr>"

definition iter_no_pnk :: iter_env where
  "iter_no_pnk = \<lparr>restart = Restart_ok, single = single_ok\<lparr>pnk_page := Returns JNull\<rparr>,
      save = Saved\<rparr>"

definition seven_patents :: "string list" where
  "seven_patents = [''CN1A'', ''CN2A'', ''CN3A'', ''CN4A'', ''CN5A'', ''CN6A'', ''CN7A'']"

definition record_second :: patent_record where
  "record_second = record_ok\<lparr>patent_no := ''CN200000001B''\<rparr>"

text \<open>The model evaluated on these inputs.\<close>

lemma fetch_ok:
  "fetch_details_immediately (env_of base_ok) tokens_ok ''CN102345678A'' = Some record_ok"
  by code_simp

lemma fetch_null:
  "fetch_details_immediately (env_of base_null_inventors) tokens_ok ''CN102345678A''
   = Some record_null_inventors"
  by code_simp

lemma batch_duplicates:
  "saved (final (process_batch_realtime (\<lambda>i. iter_ok) Start_ok []
      [''CN102345678A'', ''CN102345678A''] True True (RealTimeProcessor_init base0)))
   = [record_ok, record_ok]"
  by code_simp

lemma batch_resumed:
  "saved (final (process_batch_realtime (\<lambda>i. iter_ok) Start_ok [record_ok]
      [''CN102345678A'', ''CN200000001B''] True True (RealTimeProcessor_init base0)))
   = [record_ok, record_second]"
  "attempted (final (process_batch_realtime (\<lambda>i. iter_ok) Start_ok [record_ok]
      [''CN102345678A'', ''CN200000001B''] True True (RealTimeProcessor_init base0)))
   = [''CN200000001B'']"
  by code_simp+

lemma batch_no_pnk:
  "failed_patents (final (process_batch_realtime (\<lambda>i. iter_no_pnk) Start_ok []
      seven_patents True True (RealTimeProcessor_init base0))) = seven_patents"
  "ending (process_batch_realtime (\<lambda>i. iter_no_pnk) Start_ok []
      seven_patents True True (RealTimeProcessor_init base0)) = Some Finished"
  by code_simp+
section \<open>Theorems\<close>

text \<open>
  C4, as the code has it: a freshly constructed processor is in fast mode, whatever the
  parent's constructor did, with an empty success streak.
\<close>

theorem initial_mode_is_fast:
  "performance_mode (RealTimeProcessor_init base) = Fast
   \<and> success_streak (RealTimeProcessor_init base) = 0
   \<and> fast_mode_trigger (RealTimeProcessor_init base) = 3"
  by (simp add: RealTimeProcessor_init_def batch_token_extractor.extend_def processor.fields_def)

text \<open>C4 as the claim states it fails: the initial mode is not normal.\<close>

theorem initial_mode_normal_counterexample:
  "performance_mode (RealTimeProcessor_init base0) \<noteq> Normal"
  by (simp add: init_defs)


text \<open>
  C3: the variant generator is a total function (its worklist loop is defined with a
  termination proof: every string put on the queue weighs less than the one it was
  decoded from, also where an escape that is not UTF-8 becomes a replacement
  character), and the list it returns has no string twice.
\<close>

theorem iter_decoded_variants_distinct: "distinct (iter_decoded_variants v)"
  unfolding iter_decoded_variants_def by (simp add: iter_loop_distinct del: iter_loop.simps)

text \<open>
  C5: with the trigger at 3, three non-fallback successes in a row from normal mode with
  an empty streak end in fast mode (the timing samples may change in between); in fast
  mode a failure gives normal mode with the streak at 0; so does any success that used
  the fallback; and so does any outcome recorded in fast mode while the average search
  time is above 12.
\<close>

theorem operating_mode_transitions:
  "fast_mode_trigger s = 3 \<longrightarrow>
     (performance_mode s = Normal \<and> success_streak s = 0 \<longrightarrow>
        (let s1 = update_performance_profile True False s;
             s2 = update_performance_profile True False (s1\<lparr>speed_stats := st1\<rparr>);
             s3 = update_performance_profile True False (s2\<lparr>speed_stats := st2\<rparr>)
         in performance_mode s1 = Normal \<and> performance_mode s2 = Normal
            \<and> performance_mode s3 = Fast))
     \<and> (performance_mode s = Fast \<longrightarrow>
          performance_mode (update_performance_profile False fb s) = Normal
          \<and> success_streak (update_performance_profile False fb s) = 0)
     \<and> (performance_mode (update_performance_profile True True s) = Normal
          \<and> success_streak (update_performance_profile True True s) = 0)
     \<and> (performance_mode s = Fast \<and> get_average_stage_time ''search'' s = Some avg \<and> avg > 12 \<longrightarrow>
          performance_mode (update_performance_profile ok fb s) = Normal
          \<and> success_streak (update_performance_profile ok fb s) = 0)"
  by (auto simp: update_performance_profile_def search_is_slow_def get_average_stage_time_def Let_def
      split: option.splits)

theorem operating_mode_transitions_witness:
  "performance_mode
     (update_performance_profile True False
        ((update_performance_profile True False
            ((update_performance_profile True False s_norm)\<lparr>speed_stats := Map.empty\<rparr>))
         \<lparr>speed_stats := Map.empty\<rparr>)) = Fast
   \<and> performance_mode (update_performance_profile False False s_slow) = Normal
   \<and> success_streak (update_performance_profile False False s_slow) = 0
   \<and> performance_mode (update_performance_profile True True s_slow) = Normal
   \<and> get_average_stage_time ''search'' s_slow = Some (27 / 2)
   \<and> performance_mode (update_performance_profile True False s_slow) = Normal
   \<and> success_streak (update_performance_profile True False s_slow) = 0"
proof -
  have n: "fast_mode_trigger s_norm = 3" "performance_mode s_norm = Normal"
      "success_streak s_norm = 0"
    by (simp_all add: s_norm_def RealTimeProcessor_init_def batch_token_extractor.extend_def
        processor.fields_def)
  have f: "fast_mode_trigger s_slow = 3" "performance_mode s_slow = Fast"
    by (simp_all add: s_slow_def RealTimeProcessor_init_def batch_token_extractor.extend_def
        processor.fields_def)
  have a: "get_average_stage_time ''search'' s_slow = Some (27 / 2)"
    by (simp add: s_slow_def get_average_stage_time_def)
  from operating_mode_transitions [of s_norm Map.empty Map.empty False "27 / 2" True] n
  have 1: "performance_mode
     (update_performance_profile True False
        ((update_performance_profile True False
            ((update_performance_profile True False s_norm)\<lparr>speed_stats := Map.empty\<rparr>))
         \<lparr>speed_stats := Map.empty\<rparr>)) = Fast"
    by (simp add: Let_def)
  from operating_mode_transitions [of s_slow Map.empty Map.empty False "27 / 2" False] f a
  have 2: "performance_mode (update_performance_profile False False s_slow) = Normal
   \<and> success_streak (update_performance_profile False False s_slow) = 0
   \<and> performance_mode (update_performance_profile True True s_slow) = Normal"
    by simp
  from operating_mode_transitions [of s_slow Map.empty Map.empty False "27 / 2" True] f a
  have 3: "performance_mode (update_performance_profile True False s_slow) = Normal
   \<and> success_streak (update_performance_profile True False s_slow) = 0"
    by simp
  from 1 2 3 a show ?thesis by simp
qed

text \<open>
  C6: a recorded failure that brings the counter to 3 or more sets the cooldown stamp to
  the clock plus max(180, 10 times the request timeout); and any lookup made while the
  clock is below that stamp returns nothing and changes nothing, whether or not a
  template is cached. The clock is seconds since 1970, so it is not negative.
\<close>

theorem circuit_breaker:
  "0 \<le> now \<and> 3 \<le> direct_search_failures s + 1 \<longrightarrow>
     (let s' = register_direct_search_failure now reason pno s
      in direct_search_disabled_until s' = now + max 180 (direct_search_timeout s * 10)
         \<and> (\<forall>t. t < direct_search_disabled_until s' \<longrightarrow>
                direct_fetch_tokens out fallback t t_fail other_patent s' = (None, s')))"
  by (auto simp: register_direct_search_failure_def direct_fetch_tokens_def Let_def max_def)

theorem circuit_breaker_witness:
  "(let s' = register_direct_search_failure 1000 reason_script_timeout ''CN102345678A'' s_two_failures
    in direct_search_disabled_until s' = 1180
       \<and> direct_search_template s' = Some template0
       \<and> direct_fetch_tokens Exec_timeout None 1179 1179 ''CN102345679A'' s' = (None, s'))"
proof -
  have h: "(0::rat) \<le> 1000 \<and> 3 \<le> direct_search_failures s_two_failures + 1"
    by (simp add: s_two_failures_def)
  have t: "direct_search_timeout s_two_failures = 6"
    by (simp add: s_two_failures_def init_defs)
  have r: "reason_script_timeout \<noteq> reason_parse_failed" "reason_script_timeout \<noteq> reason_no_tokens"
      "reason_script_timeout \<noteq> []"
    by (simp_all add: reason_script_timeout_def reason_parse_failed_def reason_no_tokens_def)
  have tm: "direct_search_template
      (register_direct_search_failure 1000 reason_script_timeout ''CN102345678A'' s_two_failures)
      = Some template0"
    using r by (simp add: register_direct_search_failure_def Let_def is_parse_reason_def s_two_failures_def)
  from circuit_breaker [of 1000 s_two_failures reason_script_timeout "''CN102345678A''"
      Exec_timeout None 1179 "''CN102345679A''"] h t tm
  show ?thesis by (simp add: Let_def)
qed

text \<open>
  C7, as the code has it: a recorded failure puts the identifier on the deny-list when
  its reason is one of the two parse reasons, and leaves the deny-list as it was for
  every other reason; recording never takes an identifier off the list; and a lookup for
  an identifier on the list returns nothing at once.
\<close>

theorem denylist_only_parse_failures:
  "(let s' = register_direct_search_failure now reason pno s
    in (pno \<noteq> [] \<and> is_parse_reason reason \<longrightarrow> pno \<in> direct_search_blocklist s')
       \<and> (\<not> is_parse_reason reason \<longrightarrow> direct_search_blocklist s' = direct_search_blocklist s)
       \<and> direct_search_blocklist s \<subseteq> direct_search_blocklist s')
   \<and> (pno \<in> direct_search_blocklist s \<longrightarrow>
        direct_fetch_tokens out fallback t t_fail pno s = (None, s))"
proof -
  have u: "\<not> is_parse_reason reason_unknown"
    by (simp add: is_parse_reason_def reason_unknown_def reason_parse_failed_def reason_no_tokens_def)
  have e: "is_parse_reason reason \<Longrightarrow> reason \<noteq> []"
    by (auto simp: is_parse_reason_def reason_parse_failed_def reason_no_tokens_def)
  show ?thesis
    using u e
    by (auto simp: register_direct_search_failure_def direct_fetch_tokens_def Let_def)
qed

text \<open>C7 as the claim states it fails: a failure recorded with the reason of a script
  timeout leaves the identifier off the deny-list.\<close>

theorem denylist_counterexample:
  "''CN102345678A'' \<notin> direct_search_blocklist
     (register_direct_search_failure 1000 reason_script_timeout ''CN102345678A''
        (RealTimeProcessor_init base0))"
  by (simp add: register_direct_search_failure_def Let_def is_parse_reason_def init_defs
      reason_script_timeout_def reason_parse_failed_def reason_no_tokens_def)

theorem denylist_only_parse_failures_witness:
  "''CN102345678A'' \<in> direct_search_blocklist
     (register_direct_search_failure 1000 reason_no_tokens ''CN102345678A'' (RealTimeProcessor_init base0))
   \<and> direct_search_blocklist
       (register_direct_search_failure 1000 reason_script_timeout ''CN102345678A''
          (RealTimeProcessor_init base0)) = {}
   \<and> direct_fetch_tokens Exec_timeout None 5 5 ''CN102345678A'' s_blocked = (None, s_blocked)"
proof -
  have p: "is_parse_reason reason_no_tokens" by (simp add: is_parse_reason_def)
  have q: "\<not> is_parse_reason reason_script_timeout"
    by (simp add: is_parse_reason_def reason_script_timeout_def reason_parse_failed_def
        reason_no_tokens_def)
  have b: "direct_search_blocklist (RealTimeProcessor_init base0) = {}" by (simp add: init_defs)
  have m: "''CN102345678A'' \<in> direct_search_blocklist s_blocked" by (simp add: s_blocked_def)
  from denylist_only_parse_failures [of 1000 reason_no_tokens "''CN102345678A''"
      "RealTimeProcessor_init base0" Exec_timeout None 5 5] p
  have 1: "''CN102345678A'' \<in> direct_search_blocklist
     (register_direct_search_failure 1000 reason_no_tokens ''CN102345678A'' (RealTimeProcessor_init base0))"
    by (simp add: Let_def)
  from denylist_only_parse_failures [of 1000 reason_script_timeout "''CN102345678A''"
      "RealTimeProcessor_init base0" Exec_timeout None 5 5] q b
  have 2: "direct_search_blocklist
       (register_direct_search_failure 1000 reason_script_timeout ''CN102345678A''
          (RealTimeProcessor_init base0)) = {}"
    by (simp add: Let_def)
  from denylist_only_parse_failures [of 1000 reason_no_tokens "''CN102345678A''"
      s_blocked Exec_timeout None 5 5] m
  have 3: "direct_fetch_tokens Exec_timeout None 5 5 ''CN102345678A'' s_blocked = (None, s_blocked)"
    by (simp add: Let_def)
  from 1 2 3 show ?thesis by simp
qed

text \<open>
  C1: on the response text of the claim the decoder returns nothing, whatever the content
  type. The piece \<^verbatim>\<open>folderFlag=X\<close> is never read, because the filter looks for the
  lower-case \<^verbatim>\<open>folderflag=\<close> in a piece that was not lower-cased, so the test for the
  three keys fails in every step.
\<close>

lemma c1_variants: "iter_decoded_variants c1_text = [c1_text, c1_decoded]"
  by code_simp

lemma c1_json: "tokens_from_json_text ct c1_text = None" "tokens_from_json_text ct c1_decoded = None"
proof -
  have a: "looks_like_json c1_text" "looks_like_json c1_decoded" by code_simp+
  have b: "(case json_loads c1_text of None \<Rightarrow> None | Some p \<Rightarrow> extract_tokens_from_json p) = None"
    by code_simp
  have c: "(case json_loads c1_decoded of None \<Rightarrow> None | Some p \<Rightarrow> extract_tokens_from_json p) = None"
    by code_simp
  show "tokens_from_json_text ct c1_text = None" "tokens_from_json_text ct c1_decoded = None"
    using a b c by (simp_all add: tokens_from_json_text_def)
qed

lemma c1_fields: "tokens_from_json_fields c1_text = None" "tokens_from_json_fields c1_decoded = None"
  by code_simp+

lemma c1_query: "extract_tokens_from_query_string c1_text = None"
    "extract_tokens_from_query_string c1_decoded = None"
  by code_simp+

lemma c1_regex: "tokens_from_regex c1_text = None" "tokens_from_regex c1_decoded = None"
  by code_simp+

theorem c1_returns_None: "parse_search_response_for_tokens c1_text content_type = None"
proof -
  have "c1_text \<noteq> []" by code_simp
  then show ?thesis
    by (simp add: parse_search_response_for_tokens_def c1_variants c1_json c1_fields c1_query
        c1_regex Let_def)
qed

text \<open>
  C8, as the code has it. A record has the nine fields by its type, and the patent
  number, the type, the application date and the application number are strings by
  construction. In every record that \<^verbatim>\<open>fetch_details_immediately\<close> returns the first
  applicant, the abstract, the examiner and the first claim are not null; the inventors
  are null only where \<^verbatim>\<open>bibliographicItems.in_or\<close> of the base-info data is null; and
  both API calls have answered with status code 200 and a JSON object whose
  \<^verbatim>\<open>status\<close> is truthy.
\<close>

theorem fetch_record_complete:
  "fetch_details_immediately env toks pno = Some r \<Longrightarrow>
   first_applicant r \<noteq> JNull \<and> abstract r \<noteq> JNull \<and> examiner r \<noteq> JNull
   \<and> first_claim r \<noteq> JNull
   \<and> (inventors r = JNull \<longrightarrow>
        (\<exists>result2 data b.
           base_info env = Http_response 200 (Some (JObj result2))
           \<and> map_of result2 ''data'' = Some (JObj data)
           \<and> map_of data ''bibliographicItems'' = Some (JObj b)
           \<and> map_of b ''in_or'' = Some JNull))
   \<and> (\<exists>result v. common_info env = Http_response 200 (Some (JObj result))
          \<and> map_of result ''status'' = Some v \<and> truthy v)
   \<and> (\<exists>result2 v. base_info env = Http_response 200 (Some (JObj result2))
          \<and> map_of result2 ''status'' = Some v \<and> truthy v)"
proof -
  assume "fetch_details_immediately env toks pno = Some r"
  then obtain result common_data ptype result2 data an where
    c: "api_result (common_info env) = Returns (Some result)"
    and b: "api_result (base_info env) = Returns (Some result2)"
    and d: "get_data result2 = JObj data" "data \<noteq> []"
    and p: "parse_patent_json_for_details env data pno ptype (strip_cn an) = Returns r"
    using fetch_details_immediately_Some [of env toks pno r] by blast
  have c': "common_info env = Http_response 200 (Some (JObj result))"
    "\<exists>v. map_of result ''status'' = Some v \<and> truthy v"
    using api_result_Some [OF c] by simp_all
  have b': "base_info env = Http_response 200 (Some (JObj result2))"
    "\<exists>v. map_of result2 ''status'' = Some v \<and> truthy v"
    using api_result_Some [OF b] by simp_all
  have d': "map_of result2 ''data'' = Some (JObj data)"
    using d by (auto simp: get_data_def split: option.splits)
  have f: "first_applicant r \<noteq> JNull" "abstract r \<noteq> JNull" "examiner r \<noteq> JNull"
    "first_claim r \<noteq> JNull" "inventors r = get_inventors data"
    using parse_patent_json_for_details_fields [OF p] by simp_all
  have i: "inventors r = JNull \<longrightarrow>
        (\<exists>result2 data b.
           base_info env = Http_response 200 (Some (JObj result2))
           \<and> map_of result2 ''data'' = Some (JObj data)
           \<and> map_of data ''bibliographicItems'' = Some (JObj b)
           \<and> map_of b ''in_or'' = Some JNull)"
  proof
    assume "inventors r = JNull"
    then have "get_inventors data = JNull" using f(5) by simp
    then obtain bb where "map_of data ''bibliographicItems'' = Some (JObj bb)"
      and "map_of bb ''in_or'' = Some JNull"
      using get_inventors_null by blast
    then show "\<exists>result2 data b.
           base_info env = Http_response 200 (Some (JObj result2))
           \<and> map_of result2 ''data'' = Some (JObj data)
           \<and> map_of data ''bibliographicItems'' = Some (JObj b)
           \<and> map_of b ''in_or'' = Some JNull"
      using b'(1) d' by blast
  qed
  show ?thesis using f(1-4) i c' b' by blast
qed

text \<open>C8 as the claim states it fails: where the base-info data has
  \<^verbatim>\<open>"in_or": null\<close>, the record is returned with null inventors.\<close>

theorem fetch_null_inventors_counterexample:
  "map_option inventors
     (fetch_details_immediately (env_of base_null_inventors) tokens_ok ''CN102345678A'')
   = Some JNull"
  by (simp add: fetch_null record_null_inventors_def)

theorem fetch_record_complete_witness:
  "fetch_details_immediately (env_of base_null_inventors) tokens_ok ''CN102345678A''
     = Some record_null_inventors
   \<and> inventors record_null_inventors = JNull
   \<and> first_applicant record_null_inventors \<noteq> JNull
   \<and> abstract record_null_inventors \<noteq> JNull
   \<and> examiner record_null_inventors \<noteq> JNull
   \<and> first_claim record_null_inventors \<noteq> JNull
   \<and> (\<exists>result2 data b.
         base_info (env_of base_null_inventors) = Http_response 200 (Some (JObj result2))
         \<and> map_of result2 ''data'' = Some (JObj data)
         \<and> map_of data ''bibliographicItems'' = Some (JObj b)
         \<and> map_of b ''in_or'' = Some JNull)
   \<and> (\<exists>result v. common_info (env_of base_null_inventors)
                     = Http_response 200 (Some (JObj result))
          \<and> map_of result ''status'' = Some v \<and> truthy v)"
  using fetch_record_complete [OF fetch_null] by (simp add: fetch_null record_null_inventors_def)

text \<open>
  C10: in every record that \<^verbatim>\<open>fetch_details_immediately\<close> returns, the application
  number is the string \<^verbatim>\<open>an\<close> of the common-info data (the empty string where the key
  is missing), with every occurrence of \<^verbatim>\<open>CN\<close> removed by \<^verbatim>\<open>str.replace\<close> when it
  starts with \<^verbatim>\<open>CN\<close>, and unchanged otherwise.
\<close>

theorem application_number_strips_CN:
  "fetch_details_immediately env toks pno = Some r \<Longrightarrow>
   \<exists>result common_data an.
     common_info env = Http_response 200 (Some (JObj result))
     \<and> get_data result = JObj common_data
     \<and> get_or_empty common_data ''an'' = JStr an
     \<and> application_number r = (if startswith an ''CN'' then py_replace ''CN'' [] an else an)"
proof -
  assume "fetch_details_immediately env toks pno = Some r"
  then obtain result common_data ptype result2 data an where
    c: "api_result (common_info env) = Returns (Some result)"
    and g: "get_data result = JObj common_data"
    and a: "get_or_empty common_data ''an'' = JStr an"
    and p: "parse_patent_json_for_details env data pno ptype (strip_cn an) = Returns r"
    using fetch_details_immediately_Some [of env toks pno r] by blast
  have "common_info env = Http_response 200 (Some (JObj result))"
    using api_result_Some [OF c] by simp
  moreover have "application_number r = strip_cn an"
    using parse_patent_json_for_details_fields(3) [OF p] .
  ultimately show ?thesis using g a unfolding strip_cn_def by blast
qed

theorem application_number_strips_CN_witness:
  "fetch_details_immediately (env_of base_ok) tokens_ok ''CN102345678A'' = Some record_ok
   \<and> application_number record_ok = ''20105''
   \<and> (\<exists>result common_data an.
         common_info (env_of base_ok) = Http_response 200 (Some (JObj result))
         \<and> get_data result = JObj common_data
         \<and> get_or_empty common_data ''an'' = JStr an
         \<and> application_number record_ok
             = (if startswith an ''CN'' then py_replace ''CN'' [] an else an))"
  using application_number_strips_CN [OF fetch_ok] by (simp add: fetch_ok record_ok_def)

text \<open>
  C2, as the code has it. The output file holds records as the program writes them.
  For every identifier list and every such file, the identifiers handed to
  \<^verbatim>\<open>process_single_patent_realtime\<close> are, in order, identifiers of the list that are
  not in the file, each position of the list tried at most once; the file holds at the
  end the prior records followed by new records whose numbers are, in order, among the
  remaining identifiers; and when neither the list nor the prior records repeat a
  number, no number occurs twice in the file.
\<close>

theorem resumption_skips_completed:
  "(let completed_patents = set (map patent_no existing);
        remaining_patents = filter (\<lambda>p. p \<notin> completed_patents) patent_list;
        r = process_batch_realtime env start existing patent_list skip_unavailable skip_search s
    in set (attempted (final r)) \<subseteq> set patent_list - completed_patents
       \<and> subseq (attempted (final r)) remaining_patents
       \<and> (\<exists>new. saved (final r) = existing @ new
              \<and> subseq (map patent_no new) remaining_patents)
       \<and> (distinct patent_list \<and> distinct (map patent_no existing)
            \<longrightarrow> distinct (map patent_no (saved (final r)))))"
proof -
  define remaining where
    "remaining = filter (\<lambda>p. p \<notin> set (map patent_no existing)) patent_list"
  define r where
    "r = process_batch_realtime env start existing patent_list skip_unavailable skip_search s"
  have a: "subseq (attempted (final r)) remaining"
    using process_batch_realtime_shape(1) [OF r_def] by (simp add: remaining_def)
  obtain new where n: "saved (final r) = existing @ new"
    "subseq (map patent_no new) remaining"
    using process_batch_realtime_shape(2) [OF r_def] by (auto simp: remaining_def)
  have rem: "set remaining = set patent_list - set (map patent_no existing)"
    by (auto simp: remaining_def)
  have 1: "set (attempted (final r)) \<subseteq> set patent_list - set (map patent_no existing)"
    using subseq_set [OF a] rem by simp
  have 4: "distinct (map patent_no (saved (final r)))"
    if d: "distinct patent_list" "distinct (map patent_no existing)"
  proof -
    have "distinct remaining" using d(1) by (simp add: remaining_def)
    then have "distinct (map patent_no new)" using subseq_distinct [OF n(2)] by simp
    moreover have "set (map patent_no new) \<inter> set (map patent_no existing) = {}"
      using subseq_set [OF n(2)] rem by auto
    ultimately show ?thesis using n(1) d(2) by auto
  qed
  have "set (attempted (final r)) \<subseteq> set patent_list - set (map patent_no existing)
       \<and> subseq (attempted (final r)) remaining
       \<and> (\<exists>new. saved (final r) = existing @ new \<and> subseq (map patent_no new) remaining)
       \<and> (distinct patent_list \<and> distinct (map patent_no existing)
            \<longrightarrow> distinct (map patent_no (saved (final r))))"
    using 1 a n 4 by blast
  then show ?thesis unfolding Let_def remaining_def r_def .
qed

text \<open>C2 as the claim states it fails: an identifier that the list holds twice is
  processed twice, and the file then holds two records with its number.\<close>

theorem resumption_duplicate_counterexample:
  "\<not> distinct (map patent_no (saved (final
       (process_batch_realtime (\<lambda>i. iter_ok) Start_ok []
          [''CN102345678A'', ''CN102345678A''] True True (RealTimeProcessor_init base0)))))"
  by (simp add: batch_duplicates record_ok_def)

theorem resumption_skips_completed_witness:
  "distinct [''CN102345678A'', ''CN200000001B''] \<and> distinct (map patent_no [record_ok])
   \<and> attempted (final (process_batch_realtime (\<lambda>i. iter_ok) Start_ok [record_ok]
        [''CN102345678A'', ''CN200000001B''] True True (RealTimeProcessor_init base0)))
      = [''CN200000001B'']
   \<and> saved (final (process_batch_realtime (\<lambda>i. iter_ok) Start_ok [record_ok]
        [''CN102345678A'', ''CN200000001B''] True True (RealTimeProcessor_init base0)))
      = [record_ok, record_second]
   \<and> distinct (map patent_no [record_ok, record_second])"
proof -
  have d: "distinct (map patent_no [record_ok])"
    "distinct (map patent_no [record_ok, record_second])"
    by (simp_all add: record_ok_def record_second_def)
  show ?thesis
    using resumption_skips_completed [of "[record_ok]" "[''CN102345678A'', ''CN200000001B'']"
        "\<lambda>i. iter_ok" Start_ok True True "RealTimeProcessor_init base0"] d
    by (simp add: batch_resumed Let_def)
qed

text \<open>
  C9: when the search is skipped and the processor starts with no failed search, the
  count of failed searches is 0 at the end of the batch, the count of patents not found
  in a row is 0, no identifier has been marked unavailable, and a loop that runs to its
  end has handed every remaining identifier to \<^verbatim>\<open>process_single_patent_realtime\<close>.
  This holds of every list, and so of the state after every turn of the loop: by
  \<open>batch_loop_append\<close> the loop over a list passes through the final states of the
  loops over its prefixes. \<^verbatim>\<open>_extract_pnk_from_page\<close> of the parent class is taken to
  return or raise without touching the processor.
\<close>

theorem skip_search_never_unavailable:
  "search_fail_count s = 0 \<Longrightarrow>
   (let r = process_batch_realtime env start existing patent_list skip_unavailable True s
    in search_fail_count (proc (final r)) = 0
       \<and> consecutive_not_found (final r) = 0
       \<and> unavailable_patents (final r) = []
       \<and> (ending r = Some Finished \<longrightarrow>
            attempted (final r)
            = filter (\<lambda>p. p \<notin> set (map patent_no existing)) patent_list))"
proof -
  assume s: "search_fail_count s = 0"
  let ?remaining = "filter (\<lambda>p. p \<notin> set (map patent_no existing)) patent_list"
  let ?st0 = "\<lparr>results = existing, failed_patents = [], unavailable_patents = [],
                consecutive_failures = 0, consecutive_not_found = 0, proc = s,
                saved = existing, attempted = []\<rparr>"
  let ?r = "process_batch_realtime env start existing patent_list skip_unavailable True s"
  have "search_fail_count (proc (final ?r)) = 0 \<and> consecutive_not_found (final ?r) = 0
       \<and> unavailable_patents (final ?r) = []
       \<and> (ending ?r = Some Finished \<longrightarrow> attempted (final ?r) = ?remaining)"
  proof (cases "?remaining \<noteq> [] \<and> start = Start_ok")
    case False
    then have "final ?r = ?st0" and "ending ?r = None"
      unfolding process_batch_realtime_def Let_def by (cases start; auto)+
    then show ?thesis using s by simp
  next
    case True
    obtain st' e where l: "batch_loop env skip_unavailable True 1 ?remaining ?st0 = (st', e)"
      by (cases "batch_loop env skip_unavailable True 1 ?remaining ?st0")
    have f: "final ?r = st'" "ending ?r = Some e"
      using True l unfolding process_batch_realtime_def Let_def by simp_all
    show ?thesis using batch_loop_skip_search [OF l] s f by simp
  qed
  then show ?thesis unfolding Let_def .
qed

theorem skip_search_never_unavailable_witness:
  "search_fail_count (RealTimeProcessor_init base0) = 0
   \<and> failed_patents (final (process_batch_realtime (\<lambda>i. iter_no_pnk) Start_ok []
        seven_patents True True (RealTimeProcessor_init base0))) = seven_patents
   \<and> unavailable_patents (final (process_batch_realtime (\<lambda>i. iter_no_pnk) Start_ok []
        seven_patents True True (RealTimeProcessor_init base0))) = []
   \<and> consecutive_not_found (final (process_batch_realtime (\<lambda>i. iter_no_pnk) Start_ok []
        seven_patents True True (RealTimeProcessor_init base0))) = 0
   \<and> attempted (final (process_batch_realtime (\<lambda>i. iter_no_pnk) Start_ok []
        seven_patents True True (RealTimeProcessor_init base0))) = seven_patents"
proof -
  have z: "search_fail_count (RealTimeProcessor_init base0) = 0"
    by (simp add: init_defs)
  show ?thesis
    using skip_search_never_unavailable [OF z, of "\<lambda>i. iter_no_pnk" Start_ok "[]"
        seven_patents True] z
    by (simp add: batch_no_pnk Let_def)
qed

end
